theory Spec2Isabelle
  imports Complex_Main "HOL-Library.Monad_Syntax"
begin

section \<open>Data model (src/types/chess.ts)\<close>

datatype PieceType = King | Queen | Rook | Bishop | Knight | Pawn

datatype PieceColor = White | Black

datatype SpecialMoveType = EnPassant | CastleKingside | CastleQueenside | Promotion

datatype PromotionPiece = PromoteQueen | PromoteRook | PromoteBishop | PromoteKnight

datatype DrawReason = Stalemate | Threefold | FiftyMove | Insufficient | Agreement

record ChessPiece =
  ptype :: PieceType
  pcolor :: PieceColor

record Position =
  row :: int
  col :: int

record CastlingRights =
  whiteKingside :: bool
  whiteQueenside :: bool
  blackKingside :: bool
  blackQueenside :: bool

text \<open>
  \<^verbatim>\<open>type Board = (ChessPiece | null)[][]\<close>: a list of rows, each a list of squares;
  \<open>None\<close> is the empty square \<^verbatim>\<open>null\<close>.
\<close>

type_synonym Board = "ChessPiece option list list"

record MoveResult =
  newBoard :: Board
  captured :: "ChessPiece option"
  newEnPassantTarget :: "Position option"
  newCastlingRights :: CastlingRights
  specialMove :: "SpecialMoveType option"

record DrawStatus =
  isDraw :: bool
  reason :: "DrawReason option"

definition promoted_type :: "PromotionPiece \<Rightarrow> PieceType" where
  "promoted_type pp =
     (case pp of PromoteQueen \<Rightarrow> Queen | PromoteRook \<Rightarrow> Rook
               | PromoteBishop \<Rightarrow> Bishop | PromoteKnight \<Rightarrow> Knight)"

definition getInitialCastlingRights :: CastlingRights where
  "getInitialCastlingRights =
     \<lparr>whiteKingside = True, whiteQueenside = True, blackKingside = True, blackQueenside = True\<rparr>"

section \<open>Array accesses\<close>

text \<open>
  Every function of the engine that indexes the board returns an \<open>option\<close>: the value
  \<open>None\<close> means that the run indexed the board outside its rows or columns (JavaScript
  then raises a TypeError for a row index and reads \<^verbatim>\<open>undefined\<close> for a column index;
  the embedding does not follow a run past such an access), or that a loop does not
  terminate. A result \<open>Some v\<close> therefore says that the source returns \<open>v\<close> and that
  every access it made was inside the array.
\<close>

definition cell :: "Board \<Rightarrow> int \<Rightarrow> int \<Rightarrow> ChessPiece option option" where
  "cell board r c =
     (if 0 \<le> r \<and> r < int (length board) then
        (if 0 \<le> c \<and> c < int (length (board ! nat r)) then Some (board ! nat r ! nat c)
         else None)
      else None)"

definition set_cell :: "Board \<Rightarrow> int \<Rightarrow> int \<Rightarrow> ChessPiece option \<Rightarrow> Board option" where
  "set_cell board r c v =
     (if 0 \<le> r \<and> r < int (length board) then
        (if 0 \<le> c \<and> c < int (length (board ! nat r))
         then Some (board[nat r := (board ! nat r)[nat c := v]])
         else None)
      else None)"

text \<open>\<^verbatim>\<open>board.length\<close> and \<^verbatim>\<open>board[0].length\<close>.\<close>

definition board_rows :: "Board \<Rightarrow> int" where
  "board_rows board = int (length board)"

definition board_cols :: "Board \<Rightarrow> int option" where
  "board_cols board = (case board of [] \<Rightarrow> None | r # _ \<Rightarrow> Some (int (length r)))"

text \<open>
  The nested scan \<^verbatim>\<open>for (row = 0; row < rows; row++) for (col = 0; col < cols; col++)\<close>
  visits the squares in row-major order.
\<close>

definition scan_squares :: "int \<Rightarrow> int \<Rightarrow> Position list" where
  "scan_squares rows cols =
     concat (map (\<lambda>r. map (\<lambda>c. \<lparr>row = int r, col = int c\<rparr>) [0..<nat cols]) [0..<nat rows])"

text \<open>A loop that returns \<^verbatim>\<open>true\<close> at the first element passing the test, else \<^verbatim>\<open>false\<close>.\<close>

fun for_some :: "('a \<Rightarrow> bool option) \<Rightarrow> 'a list \<Rightarrow> bool option" where
  "for_some f [] = Some False"
| "for_some f (x # xs) = do { hit \<leftarrow> f x; if hit then Some True else for_some f xs }"

text \<open>A loop that returns the first element passing the test, else \<^verbatim>\<open>null\<close>.\<close>

fun for_first :: "('a \<Rightarrow> bool option) \<Rightarrow> 'a list \<Rightarrow> 'a option option" where
  "for_first f [] = Some None"
| "for_first f (x # xs) = do { hit \<leftarrow> f x; if hit then Some (Some x) else for_first f xs }"

text \<open>A loop that pushes every element passing the test.\<close>

fun for_collect :: "('a \<Rightarrow> bool option) \<Rightarrow> 'a list \<Rightarrow> 'a list option" where
  "for_collect f [] = Some []"
| "for_collect f (x # xs) =
     do { hit \<leftarrow> f x; rest \<leftarrow> for_collect f xs; Some (if hit then x # rest else rest) }"

section \<open>Attack and path analysis\<close>

partial_function (option) isPathClear_loop ::
  "Board \<Rightarrow> Position \<Rightarrow> int \<Rightarrow> int \<Rightarrow> int \<Rightarrow> int \<Rightarrow> bool option" where
  "isPathClear_loop board to rowDir colDir currentRow currentCol =
     (if currentRow \<noteq> row to \<or> currentCol \<noteq> col to then
        do { sq \<leftarrow> cell board currentRow currentCol;
             if sq \<noteq> None then Some False
             else isPathClear_loop board to rowDir colDir
                    (currentRow + rowDir) (currentCol + colDir) }
      else Some True)"

declare isPathClear_loop.simps [code]

definition isPathClear :: "Board \<Rightarrow> Position \<Rightarrow> Position \<Rightarrow> bool option" where
  "isPathClear board from to =
     (let rowDir = sgn (row to - row from);
          colDir = sgn (col to - col from)
      in isPathClear_loop board to rowDir colDir (row from + rowDir) (col from + colDir))"

definition same_color_target :: "ChessPiece option \<Rightarrow> ChessPiece \<Rightarrow> bool" where
  "same_color_target target piece =
     (case target of None \<Rightarrow> False | Some t \<Rightarrow> pcolor t = pcolor piece)"

definition isValidMoveBasicForAttack :: "Board \<Rightarrow> Position \<Rightarrow> Position \<Rightarrow> bool option" where
  "isValidMoveBasicForAttack board from to =
     do { let rows = board_rows board;
          cols \<leftarrow> board_cols board;
          if row to < 0 \<or> row to \<ge> rows \<or> col to < 0 \<or> col to \<ge> cols then Some False
          else do {
            sq \<leftarrow> cell board (row from) (col from);
            case sq of
              None \<Rightarrow> Some False
            | Some piece \<Rightarrow> do {
                target \<leftarrow> cell board (row to) (col to);
                if same_color_target target piece then Some False
                else if row from = row to \<and> col from = col to then Some False
                else
                  let rowDiff = row to - row from;
                      colDiff = col to - col from;
                      absRowDiff = \<bar>rowDiff\<bar>;
                      absColDiff = \<bar>colDiff\<bar>
                  in case ptype piece of
                       Pawn \<Rightarrow>
                         (let direction = (if pcolor piece = White then - 1 else 1)
                          in Some (absColDiff = 1 \<and> rowDiff = direction))
                     | Knight \<Rightarrow>
                         Some ((absRowDiff = 2 \<and> absColDiff = 1) \<or> (absRowDiff = 1 \<and> absColDiff = 2))
                     | Bishop \<Rightarrow>
                         (if absRowDiff \<noteq> absColDiff then Some False
                          else isPathClear board from to)
                     | Rook \<Rightarrow>
                         (if rowDiff \<noteq> 0 \<and> colDiff \<noteq> 0 then Some False
                          else isPathClear board from to)
                     | Queen \<Rightarrow>
                         (if absRowDiff \<noteq> absColDiff \<and> rowDiff \<noteq> 0 \<and> colDiff \<noteq> 0 then Some False
                          else isPathClear board from to)
                     | King \<Rightarrow> Some (absRowDiff \<le> 1 \<and> absColDiff \<le> 1) } } }"

definition opponent :: "PieceColor \<Rightarrow> PieceColor" where
  "opponent color = (if color = White then Black else White)"

definition findKingPosition :: "Board \<Rightarrow> PieceColor \<Rightarrow> Position option option" where
  "findKingPosition board color =
     do { let rows = board_rows board;
          cols \<leftarrow> board_cols board;
          for_first (\<lambda>p. do { sq \<leftarrow> cell board (row p) (col p);
                              Some (case sq of None \<Rightarrow> False
                                    | Some piece \<Rightarrow> ptype piece = King \<and> pcolor piece = color) })
            (scan_squares rows cols) }"

definition isSquareUnderAttack :: "Board \<Rightarrow> Position \<Rightarrow> PieceColor \<Rightarrow> bool option" where
  "isSquareUnderAttack board position attackerColor =
     do { let rows = board_rows board;
          cols \<leftarrow> board_cols board;
          for_some (\<lambda>p. do { sq \<leftarrow> cell board (row p) (col p);
                             case sq of
                               None \<Rightarrow> Some False
                             | Some piece \<Rightarrow>
                                 if pcolor piece = attackerColor
                                 then isValidMoveBasicForAttack board p position
                                 else Some False })
            (scan_squares rows cols) }"

definition isKingInCheck :: "Board \<Rightarrow> PieceColor \<Rightarrow> bool option" where
  "isKingInCheck board kingColor =
     do { kingPos \<leftarrow> findKingPosition board kingColor;
          case kingPos of
            None \<Rightarrow> Some False
          | Some kp \<Rightarrow> isSquareUnderAttack board kp (opponent kingColor) }"

section \<open>Move legality\<close>

definition canCastle ::
  "Board \<Rightarrow> Position \<Rightarrow> Position \<Rightarrow> PieceColor \<Rightarrow> CastlingRights \<Rightarrow> bool option" where
  "canCastle board from to color castlingRights =
     (let rows = board_rows board;
          kingRow = (if color = White then rows - 1 else 0);
          kingCol = 4
      in if row from \<noteq> kingRow \<or> col from \<noteq> kingCol then Some False
         else
           let isKingside = (col to > col from)
           in if (if color = White
                  then (isKingside \<and> \<not> whiteKingside castlingRights)
                     \<or> (\<not> isKingside \<and> \<not> whiteQueenside castlingRights)
                  else (isKingside \<and> \<not> blackKingside castlingRights)
                     \<or> (\<not> isKingside \<and> \<not> blackQueenside castlingRights))
              then Some False
              else do {
                inCheck \<leftarrow> isKingInCheck board color;
                if inCheck then Some False
                else do {
                  let rookCol = (if isKingside then 8 else 0);
                  rook \<leftarrow> cell board kingRow rookCol;
                  if (case rook of None \<Rightarrow> True
                      | Some rk \<Rightarrow> ptype rk \<noteq> Rook \<or> pcolor rk \<noteq> color)
                  then Some False
                  else do {
                    let startCol = min kingCol rookCol + 1;
                    let endCol = max kingCol rookCol;
                    blocked \<leftarrow> for_some (\<lambda>c. do { sq \<leftarrow> cell board kingRow c; Some (sq \<noteq> None) })
                                 [startCol..endCol - 1];
                    if blocked then Some False
                    else do {
                      let opponentColor = opponent color;
                      let direction = (if isKingside then 1 else - 1);
                      attacked \<leftarrow> for_some
                         (\<lambda>i. let checkCol = kingCol + direction * i
                              in isSquareUnderAttack board \<lparr>row = kingRow, col = checkCol\<rparr> opponentColor)
                         [1, 2];
                      if attacked then Some False else Some True } } } })"

definition ep_matches :: "Position option \<Rightarrow> Position \<Rightarrow> bool" where
  "ep_matches enPassantTarget to =
     (case enPassantTarget of None \<Rightarrow> False
      | Some ep \<Rightarrow> row to = row ep \<and> col to = col ep)"

definition isValidMoveBasic ::
  "Board \<Rightarrow> Position \<Rightarrow> Position \<Rightarrow> Position option \<Rightarrow> CastlingRights option \<Rightarrow> bool option" where
  "isValidMoveBasic board from to enPassantTarget castlingRights =
     do { let rows = board_rows board;
          cols \<leftarrow> board_cols board;
          if row to < 0 \<or> row to \<ge> rows \<or> col to < 0 \<or> col to \<ge> cols then Some False
          else do {
            sq \<leftarrow> cell board (row from) (col from);
            case sq of
              None \<Rightarrow> Some False
            | Some piece \<Rightarrow> do {
                target \<leftarrow> cell board (row to) (col to);
                if same_color_target target piece then Some False
                else if row from = row to \<and> col from = col to then Some False
                else
                  let rowDiff = row to - row from;
                      colDiff = col to - col from;
                      absRowDiff = \<bar>rowDiff\<bar>;
                      absColDiff = \<bar>colDiff\<bar>;
                      whiteStartRow = rows - 2;
                      blackStartRow = 1
                  in case ptype piece of
                       Pawn \<Rightarrow>
                         (let direction = (if pcolor piece = White then - 1 else 1);
                              startRow = (if pcolor piece = White then whiteStartRow else blackStartRow)
                          in do {
                            forward \<leftarrow>
                              (if colDiff = 0 \<and> target = None then
                                 (if rowDiff = direction then Some True
                                  else if row from = startRow \<and> rowDiff = 2 * direction then
                                    do { mid \<leftarrow> cell board (row from + direction) (col from);
                                         Some (mid = None) }
                                  else Some False)
                               else Some False);
                            if forward then Some True
                            else if absColDiff = 1 \<and> rowDiff = direction then
                              (if target \<noteq> None then Some True
                               else if ep_matches enPassantTarget to then Some True
                               else Some False)
                            else Some False })
                     | Knight \<Rightarrow>
                         Some ((absRowDiff = 2 \<and> absColDiff = 1) \<or> (absRowDiff = 1 \<and> absColDiff = 2))
                     | Bishop \<Rightarrow>
                         (if absRowDiff \<noteq> absColDiff then Some False
                          else isPathClear board from to)
                     | Rook \<Rightarrow>
                         (if rowDiff \<noteq> 0 \<and> colDiff \<noteq> 0 then Some False
                          else isPathClear board from to)
                     | Queen \<Rightarrow>
                         (if absRowDiff \<noteq> absColDiff \<and> rowDiff \<noteq> 0 \<and> colDiff \<noteq> 0 then Some False
                          else isPathClear board from to)
                     | King \<Rightarrow>
                         (if absRowDiff \<le> 1 \<and> absColDiff \<le> 1 then Some True
                          else case castlingRights of
                                 None \<Rightarrow> Some False
                               | Some rights \<Rightarrow>
                                   if absRowDiff = 0 \<and> absColDiff = 2
                                   then canCastle board from to (pcolor piece) rights
                                   else Some False) } } }"

text \<open>
  \<^verbatim>\<open>board.map(r => [...r])\<close> copies the board; the copy is the same value. The
  simulated move writes the copy square by square.
\<close>

definition wouldMoveLeaveKingInCheck ::
  "Board \<Rightarrow> Position \<Rightarrow> Position \<Rightarrow> PieceColor \<Rightarrow> Position option \<Rightarrow> bool option" where
  "wouldMoveLeaveKingInCheck board from to playerColor enPassantTarget =
     do { let newBoard = board;
          piece \<leftarrow> cell newBoard (row from) (col from);
          newBoard \<leftarrow> set_cell newBoard (row to) (col to) piece;
          newBoard \<leftarrow> set_cell newBoard (row from) (col from) None;
          newBoard \<leftarrow>
            (case piece of
               None \<Rightarrow> Some newBoard
             | Some pc \<Rightarrow>
                 if ptype pc = Pawn \<and> ep_matches enPassantTarget to then
                   (let capturedPawnRow = (if pcolor pc = White then row to + 1 else row to - 1)
                    in set_cell newBoard capturedPawnRow (col to) None)
                 else Some newBoard);
          newBoard \<leftarrow>
            (case piece of
               None \<Rightarrow> Some newBoard
             | Some pc \<Rightarrow>
                 if ptype pc = King \<and> \<bar>col to - col from\<bar> = 2 then
                   (let isKingside = (col to > col from);
                        rookFromCol = (if isKingside then 8 else 0);
                        rookToCol = (if isKingside then col to - 1 else col to + 1)
                    in do { rook \<leftarrow> cell newBoard (row to) rookFromCol;
                            nb \<leftarrow> set_cell newBoard (row to) rookToCol rook;
                            set_cell nb (row to) rookFromCol None })
                 else Some newBoard);
          isKingInCheck newBoard playerColor }"

definition isValidMove ::
  "Board \<Rightarrow> Position \<Rightarrow> Position \<Rightarrow> Position option \<Rightarrow> CastlingRights option \<Rightarrow> bool option" where
  "isValidMove board from to enPassantTarget castlingRights =
     do { sq \<leftarrow> cell board (row from) (col from);
          case sq of
            None \<Rightarrow> Some False
          | Some piece \<Rightarrow> do {
              basic \<leftarrow> isValidMoveBasic board from to enPassantTarget castlingRights;
              if \<not> basic then Some False
              else do {
                leaves \<leftarrow> wouldMoveLeaveKingInCheck board from to (pcolor piece) enPassantTarget;
                if leaves then Some False else Some True } } }"

definition getValidMoves ::
  "Board \<Rightarrow> Position \<Rightarrow> Position option \<Rightarrow> CastlingRights option \<Rightarrow> Position list option" where
  "getValidMoves board from enPassantTarget castlingRights =
     do { let rows = board_rows board;
          cols \<leftarrow> board_cols board;
          for_collect (\<lambda>to. isValidMove board from to enPassantTarget castlingRights)
            (scan_squares rows cols) }"

text \<open>A loop that appends the elements produced at each step.\<close>

fun for_append :: "('a \<Rightarrow> 'b list option) \<Rightarrow> 'a list \<Rightarrow> 'b list option" where
  "for_append f [] = Some []"
| "for_append f (x # xs) = do { ys \<leftarrow> f x; rest \<leftarrow> for_append f xs; Some (ys @ rest) }"

definition getPiecesOfColor :: "Board \<Rightarrow> PieceColor \<Rightarrow> (ChessPiece \<times> Position) list option" where
  "getPiecesOfColor board color =
     do { let rows = board_rows board;
          cols \<leftarrow> board_cols board;
          for_append (\<lambda>p. do { sq \<leftarrow> cell board (row p) (col p);
                               Some (case sq of None \<Rightarrow> []
                                     | Some piece \<Rightarrow> if pcolor piece = color then [(piece, p)] else []) })
            (scan_squares rows cols) }"

text \<open>A move \<^verbatim>\<open>{ from, to, piece }\<close> is the triple \<open>(from, to, piece)\<close>.\<close>

type_synonym Move = "Position \<times> Position \<times> ChessPiece"

definition getAllLegalMoves ::
  "Board \<Rightarrow> PieceColor \<Rightarrow> Position option \<Rightarrow> CastlingRights option \<Rightarrow> Move list option" where
  "getAllLegalMoves board color enPassantTarget castlingRights =
     do { pieces \<leftarrow> getPiecesOfColor board color;
          for_append (\<lambda>(piece, position). do {
                        validMoves \<leftarrow> getValidMoves board position enPassantTarget castlingRights;
                        Some (map (\<lambda>to. (position, to, piece)) validMoves) })
            pieces }"

definition getAllMoves ::
  "Board \<Rightarrow> PieceColor \<Rightarrow> Position option \<Rightarrow> CastlingRights option \<Rightarrow> Move list option" where
  "getAllMoves board color enPassantTarget castlingRights =
     getAllLegalMoves board color enPassantTarget castlingRights"

section \<open>Game status\<close>

definition isCheckmate ::
  "Board \<Rightarrow> PieceColor \<Rightarrow> Position option \<Rightarrow> CastlingRights option \<Rightarrow> bool option" where
  "isCheckmate board color enPassantTarget castlingRights =
     do { inCheck \<leftarrow> isKingInCheck board color;
          if \<not> inCheck then Some False
          else do { legalMoves \<leftarrow> getAllLegalMoves board color enPassantTarget castlingRights;
                    Some (length legalMoves = 0) } }"

definition isStalemate ::
  "Board \<Rightarrow> PieceColor \<Rightarrow> Position option \<Rightarrow> CastlingRights option \<Rightarrow> bool option" where
  "isStalemate board color enPassantTarget castlingRights =
     do { inCheck \<leftarrow> isKingInCheck board color;
          if inCheck then Some False
          else do { legalMoves \<leftarrow> getAllLegalMoves board color enPassantTarget castlingRights;
                    Some (length legalMoves = 0) } }"

section \<open>Draw detection\<close>

text \<open>The string literals of \<^verbatim>\<open>PieceColor\<close> and \<^verbatim>\<open>PieceType\<close>, and template-literal numbers.\<close>

definition color_name :: "PieceColor \<Rightarrow> string" where
  "color_name color = (case color of White \<Rightarrow> ''white'' | Black \<Rightarrow> ''black'')"

definition type_name :: "PieceType \<Rightarrow> string" where
  "type_name t =
     (case t of King \<Rightarrow> ''king'' | Queen \<Rightarrow> ''queen'' | Rook \<Rightarrow> ''rook''
              | Bishop \<Rightarrow> ''bishop'' | Knight \<Rightarrow> ''knight'' | Pawn \<Rightarrow> ''pawn'')"

definition digit_char :: "nat \<Rightarrow> char" where
  "digit_char d = char_of (48 + d)"

function string_of_nat :: "nat \<Rightarrow> string" where
  "string_of_nat n =
     (if n < 10 then [digit_char n] else string_of_nat (n div 10) @ [digit_char (n mod 10)])"
  by pat_completeness auto
termination
  by (relation "measure id") auto

definition string_of_int :: "int \<Rightarrow> string" where
  "string_of_int i = (if i < 0 then CHR ''-'' # string_of_nat (nat (- i)) else string_of_nat (nat i))"

definition getBoardPositionHash ::
  "Board \<Rightarrow> PieceColor \<Rightarrow> CastlingRights \<Rightarrow> Position option \<Rightarrow> string option" where
  "getBoardPositionHash board currentPlayer castlingRights enPassantTarget =
     do { cols \<leftarrow> (if board_rows board > 0 then board_cols board else Some 0);
          squares \<leftarrow> for_append
            (\<lambda>p. do { sq \<leftarrow> cell board (row p) (col p);
                      Some (case sq of None \<Rightarrow> []
                            | Some piece \<Rightarrow>
                                take 1 (color_name (pcolor piece)) @ take 1 (type_name (ptype piece))
                                @ string_of_int (row p) @ string_of_int (col p)) })
            (scan_squares (board_rows board) cols);
          Some (squares
                @ take 1 (color_name currentPlayer)
                @ (if whiteKingside castlingRights then ''K'' else [])
                @ (if whiteQueenside castlingRights then ''Q'' else [])
                @ (if blackKingside castlingRights then ''k'' else [])
                @ (if blackQueenside castlingRights then ''q'' else [])
                @ (case enPassantTarget of None \<Rightarrow> []
                   | Some ep \<Rightarrow> ''e'' @ string_of_int (row ep) @ string_of_int (col ep))) }"

definition isThreefoldRepetition :: "string list \<Rightarrow> string \<Rightarrow> bool" where
  "isThreefoldRepetition positionHistory currentPosition =
     (let count = length (filter (\<lambda>pos. pos = currentPosition) positionHistory)
      in count \<ge> 2)"

definition isFiftyMoveRule :: "int \<Rightarrow> bool" where
  "isFiftyMoveRule halfMoveClock = (halfMoveClock \<ge> 100)"

definition isInsufficientMaterial :: "Board \<Rightarrow> bool option" where
  "isInsufficientMaterial board =
     do { cols \<leftarrow> (if board_rows board > 0 then board_cols board else Some 0);
          pieces \<leftarrow> for_append
            (\<lambda>p. do { sq \<leftarrow> cell board (row p) (col p);
                      Some (case sq of None \<Rightarrow> []
                            | Some piece \<Rightarrow> [(ptype piece, pcolor piece, p)]) })
            (scan_squares (board_rows board) cols);
          if length pieces = 2 then Some (list_all (\<lambda>p. fst p = King) pieces)
          else
            let nonKings = filter (\<lambda>p. fst p \<noteq> King) pieces
            in if length pieces = 3 \<and> length nonKings = 1
               then Some (fst (hd nonKings) = Bishop \<or> fst (hd nonKings) = Knight)
               else
                 let bishops = filter (\<lambda>p. fst p = Bishop) pieces
                 in if length pieces = 4 \<and> length bishops = 2
                    then (let bishopSquareColors =
                                map (\<lambda>b. (row (snd (snd b)) + col (snd (snd b))) mod 2) bishops
                          in Some (bishopSquareColors ! 0 = bishopSquareColors ! 1))
                    else Some False }"

definition getDrawStatus ::
  "Board \<Rightarrow> PieceColor \<Rightarrow> Position option \<Rightarrow> CastlingRights \<Rightarrow> string list \<Rightarrow> int
     \<Rightarrow> DrawStatus option" where
  "getDrawStatus board currentPlayer enPassantTarget castlingRights positionHistory halfMoveClock =
     do { stalemate \<leftarrow> isStalemate board currentPlayer enPassantTarget (Some castlingRights);
          if stalemate then Some \<lparr>isDraw = True, reason = Some Stalemate\<rparr>
          else do {
            currentPosition \<leftarrow>
              getBoardPositionHash board currentPlayer castlingRights enPassantTarget;
            if isThreefoldRepetition positionHistory currentPosition
            then Some \<lparr>isDraw = True, reason = Some Threefold\<rparr>
            else if isFiftyMoveRule halfMoveClock
            then Some \<lparr>isDraw = True, reason = Some FiftyMove\<rparr>
            else do {
              insufficient \<leftarrow> isInsufficientMaterial board;
              if insufficient then Some \<lparr>isDraw = True, reason = Some Insufficient\<rparr>
              else Some \<lparr>isDraw = False, reason = None\<rparr> } } }"

section \<open>Move execution\<close>

definition getSpecialMoveType ::
  "Board \<Rightarrow> Position \<Rightarrow> Position \<Rightarrow> Position option \<Rightarrow> SpecialMoveType option option" where
  "getSpecialMoveType board from to enPassantTarget =
     do { sq \<leftarrow> cell board (row from) (col from);
          case sq of
            None \<Rightarrow> Some None
          | Some piece \<Rightarrow>
              if ptype piece = King \<and> \<bar>col to - col from\<bar> = 2
              then Some (Some (if col to > col from then CastleKingside else CastleQueenside))
              else if ptype piece = Pawn \<and> ep_matches enPassantTarget to
              then Some (Some EnPassant)
              else
                let rows = board_rows board
                in if ptype piece = Pawn
                      \<and> ((pcolor piece = White \<and> row to = 0)
                         \<or> (pcolor piece = Black \<and> row to = rows - 1))
                   then Some (Some Promotion)
                   else Some None }"

definition isPromotionMove :: "Board \<Rightarrow> Position \<Rightarrow> Position \<Rightarrow> bool option" where
  "isPromotionMove board from to =
     do { sq \<leftarrow> cell board (row from) (col from);
          case sq of
            None \<Rightarrow> Some False
          | Some piece \<Rightarrow>
              if ptype piece \<noteq> Pawn then Some False
              else
                let rows = board_rows board
                in Some ((pcolor piece = White \<and> row to = 0)
                         \<or> (pcolor piece = Black \<and> row to = rows - 1)) }"

text \<open>The block \<^verbatim>\<open>// Set en passant target if pawn moved two squares\<close> of \<^verbatim>\<open>executeMove\<close>.\<close>

definition enPassantTarget_after :: "ChessPiece \<Rightarrow> Position \<Rightarrow> Position \<Rightarrow> Position option" where
  "enPassantTarget_after piece from to =
     (if ptype piece = Pawn \<and> \<bar>row to - row from\<bar> = 2
      then (let epRow = (if pcolor piece = White then row to + 1 else row to - 1)
            in Some \<lparr>row = epRow, col = col to\<rparr>)
      else None)"

text \<open>
  The block \<^verbatim>\<open>// Update castling rights\<close> of \<^verbatim>\<open>executeMove\<close> clears flags of the copy
  \<^verbatim>\<open>newCastlingRights\<close> in three steps: \<^verbatim>\<open>// King moved\<close>,
  \<^verbatim>\<open>// Rook moved or captured\<close> and \<^verbatim>\<open>// Rook captured\<close>.
\<close>

definition rights_king_moved :: "ChessPiece \<Rightarrow> CastlingRights \<Rightarrow> CastlingRights" where
  "rights_king_moved piece rights =
     (if ptype piece = King then
        (if pcolor piece = White
         then rights\<lparr>whiteKingside := False, whiteQueenside := False\<rparr>
         else rights\<lparr>blackKingside := False, blackQueenside := False\<rparr>)
      else rights)"

definition rights_rook_moved ::
  "int \<Rightarrow> ChessPiece \<Rightarrow> Position \<Rightarrow> CastlingRights \<Rightarrow> CastlingRights" where
  "rights_rook_moved rows piece from rights =
     (if ptype piece = Rook then
        (if pcolor piece = White then
           (let cr = (if col from = 0 \<and> row from = rows - 1
                      then rights\<lparr>whiteQueenside := False\<rparr>
                      else rights)
            in if col from = 8 \<and> row from = rows - 1
               then cr\<lparr>whiteKingside := False\<rparr> else cr)
         else
           (let cr = (if col from = 0 \<and> row from = 0
                      then rights\<lparr>blackQueenside := False\<rparr>
                      else rights)
            in if col from = 8 \<and> row from = 0
               then cr\<lparr>blackKingside := False\<rparr> else cr))
      else rights)"

definition rights_rook_captured ::
  "int \<Rightarrow> ChessPiece option \<Rightarrow> Position \<Rightarrow> CastlingRights \<Rightarrow> CastlingRights" where
  "rights_rook_captured rows capturedPiece to rights =
     (case capturedPiece of
        None \<Rightarrow> rights
      | Some cap \<Rightarrow>
          if ptype cap = Rook then
            (if pcolor cap = White then
               (let cr = (if col to = 0 \<and> row to = rows - 1
                          then rights\<lparr>whiteQueenside := False\<rparr>
                          else rights)
                in if col to = 8 \<and> row to = rows - 1
                   then cr\<lparr>whiteKingside := False\<rparr> else cr)
             else
               (let cr = (if col to = 0 \<and> row to = 0
                          then rights\<lparr>blackQueenside := False\<rparr>
                          else rights)
                in if col to = 8 \<and> row to = 0
                   then cr\<lparr>blackKingside := False\<rparr> else cr))
          else rights)"

definition castlingRights_after ::
  "int \<Rightarrow> ChessPiece \<Rightarrow> ChessPiece option \<Rightarrow> Position \<Rightarrow> Position \<Rightarrow> CastlingRights
     \<Rightarrow> CastlingRights" where
  "castlingRights_after rows piece capturedPiece from to castlingRights =
     rights_rook_captured rows capturedPiece to
       (rights_rook_moved rows piece from
          (rights_king_moved piece castlingRights))"

definition executeMove ::
  "Board \<Rightarrow> Position \<Rightarrow> Position \<Rightarrow> CastlingRights \<Rightarrow> Position option \<Rightarrow> PromotionPiece
     \<Rightarrow> MoveResult option" where
  "executeMove board from to castlingRights enPassantTarget promotionPiece =
     do { let newBoard = board;
          sq \<leftarrow> cell newBoard (row from) (col from);
          let rows = board_rows board;
          case sq of
            None \<Rightarrow>
              Some \<lparr>newBoard = newBoard, captured = None, newEnPassantTarget = None,
                    newCastlingRights = castlingRights, specialMove = None\<rparr>
          | Some piece \<Rightarrow> do {
              captured \<leftarrow> cell newBoard (row to) (col to);
              specialMove \<leftarrow> getSpecialMoveType board from to enPassantTarget;
              (captured, newBoard) \<leftarrow>
                (if specialMove = Some EnPassant then
                   (let capturedPawnRow = (if pcolor piece = White then row to + 1 else row to - 1)
                    in do { cp \<leftarrow> cell newBoard capturedPawnRow (col to);
                            nb \<leftarrow> set_cell newBoard capturedPawnRow (col to) None;
                            Some (cp, nb) })
                 else Some (captured, newBoard));
              newBoard \<leftarrow>
                (if specialMove = Some CastleKingside \<or> specialMove = Some CastleQueenside then
                   (let isKingside = (specialMove = Some CastleKingside);
                        rookFromCol = (if isKingside then 8 else 0);
                        rookToCol = (if isKingside then col to - 1 else col to + 1)
                    in do { rook \<leftarrow> cell newBoard (row to) rookFromCol;
                            nb \<leftarrow> set_cell newBoard (row to) rookToCol rook;
                            set_cell nb (row to) rookFromCol None })
                 else Some newBoard);
              newBoard \<leftarrow>
                (if specialMove = Some Promotion
                 then set_cell newBoard (row to) (col to)
                        (Some \<lparr>ptype = promoted_type promotionPiece, pcolor = pcolor piece\<rparr>)
                 else set_cell newBoard (row to) (col to) (Some piece));
              newBoard \<leftarrow> set_cell newBoard (row from) (col from) None;
              Some \<lparr>newBoard = newBoard, captured = captured,
                    newEnPassantTarget = enPassantTarget_after piece from to,
                    newCastlingRights = castlingRights_after rows piece captured from to castlingRights,
                    specialMove = specialMove\<rparr> } }"

section \<open>Initial position\<close>

datatype BoardSize = Size9x8 | Size9x9

definition getBoardDimensions :: "BoardSize \<Rightarrow> nat \<times> nat" where
  "getBoardDimensions boardSize = (if boardSize = Size9x9 then (9, 9) else (8, 9))"

definition backRow :: "PieceColor \<Rightarrow> ChessPiece option list" where
  "backRow color =
     map (\<lambda>t. Some \<lparr>ptype = t, pcolor = color\<rparr>)
       [Rook, Knight, Bishop, Queen, King, Queen, Bishop, Knight, Rook]"

definition createInitialBoard :: "BoardSize \<Rightarrow> Board" where
  "createInitialBoard boardSize =
     (let (rows, cols) = getBoardDimensions boardSize
      in [backRow Black, replicate cols (Some \<lparr>ptype = Pawn, pcolor = Black\<rparr>)]
         @ replicate (rows - 4) (replicate cols None)
         @ [replicate cols (Some \<lparr>ptype = Pawn, pcolor = White\<rparr>), backRow White])"

section \<open>Search\<close>

text \<open>
  The scores of the search are JavaScript numbers: the finite values returned by the
  evaluation, and the two infinities that initialise the window and the running
  optimum. The search only compares scores (\<^verbatim>\<open>Math.max\<close>, \<^verbatim>\<open>Math.min\<close>, \<^verbatim>\<open><=\<close>, \<^verbatim>\<open>>\<close>).
\<close>

datatype Score = NegInfinity | Finite real | Infinity

instantiation Score :: linorder
begin

definition less_eq_Score :: "Score \<Rightarrow> Score \<Rightarrow> bool" where
  "less_eq_Score x y =
     (case x of
        NegInfinity \<Rightarrow> True
      | Finite a \<Rightarrow> (case y of NegInfinity \<Rightarrow> False | Finite b \<Rightarrow> a \<le> b | Infinity \<Rightarrow> True)
      | Infinity \<Rightarrow> (case y of Infinity \<Rightarrow> True | _ \<Rightarrow> False))"

definition less_Score :: "Score \<Rightarrow> Score \<Rightarrow> bool" where
  "less_Score x y = (x \<le> y \<and> \<not> y \<le> (x::Score))"

instance
proof
  fix x y z :: Score
  show "(x < y) = (x \<le> y \<and> \<not> y \<le> x)"
    by (simp add: less_Score_def)
  show "x \<le> x"
    by (cases x) (simp_all add: less_eq_Score_def)
  show "x \<le> y \<Longrightarrow> y \<le> z \<Longrightarrow> x \<le> z"
    by (cases x; cases y; cases z) (simp_all add: less_eq_Score_def)
  show "x \<le> y \<Longrightarrow> y \<le> x \<Longrightarrow> x = y"
    by (cases x; cases y) (simp_all add: less_eq_Score_def)
  show "x \<le> y \<or> y \<le> x"
    by (cases x; cases y) (auto simp add: less_eq_Score_def)
qed

end

text \<open>
  \<^verbatim>\<open>evaluateBoard\<close> sums floating-point terms; the search never looks inside the score it
  returns, so the evaluation is the parameter \<open>evaluateBoard\<close> of the search. In
  \<^verbatim>\<open>getAIMove\<close> the parameter \<open>perturb i\<close> is the adjustment
  \<^verbatim>\<open>score + Math.random() * 0.5\<close> made in the \<open>i\<close>-th iteration of the loop.
\<close>

type_synonym Evaluation = "Board \<Rightarrow> Position option \<Rightarrow> CastlingRights option \<Rightarrow> Score option"

function minimax ::
  "Evaluation \<Rightarrow> Board \<Rightarrow> nat \<Rightarrow> Score \<Rightarrow> Score \<Rightarrow> bool \<Rightarrow> Position option \<Rightarrow> CastlingRights
     \<Rightarrow> Score option"
and minimax_max_loop ::
  "Evaluation \<Rightarrow> Board \<Rightarrow> nat \<Rightarrow> Position option \<Rightarrow> CastlingRights
     \<Rightarrow> Move list \<Rightarrow> Score \<Rightarrow> Score \<Rightarrow> Score \<Rightarrow> Score option"
and minimax_min_loop ::
  "Evaluation \<Rightarrow> Board \<Rightarrow> nat \<Rightarrow> Position option \<Rightarrow> CastlingRights
     \<Rightarrow> Move list \<Rightarrow> Score \<Rightarrow> Score \<Rightarrow> Score \<Rightarrow> Score option"
where
  "minimax evaluateBoard board depth alpha beta isMaximizing enPassantTarget castlingRights =
     (if depth = 0 then evaluateBoard board enPassantTarget (Some castlingRights)
      else do {
          let color = (if isMaximizing then Black else White);
          mate \<leftarrow> isCheckmate board color enPassantTarget (Some castlingRights);
          if mate then Some (if isMaximizing then Finite (- 10000) else Finite 10000)
          else do {
            moves \<leftarrow> getAllMoves board color enPassantTarget (Some castlingRights);
            if length moves = 0 then Some (Finite 0)
            else if isMaximizing
            then minimax_max_loop evaluateBoard board (depth - 1) enPassantTarget castlingRights
                   moves NegInfinity alpha beta
            else minimax_min_loop evaluateBoard board (depth - 1) enPassantTarget castlingRights
                   moves Infinity alpha beta } })"
| "minimax_max_loop evaluateBoard board depth1 enPassantTarget castlingRights
     moves maxEval alpha beta =
     (case moves of [] \<Rightarrow> Some maxEval
      | move # rest \<Rightarrow>
     do { result \<leftarrow> executeMove board (fst move) (fst (snd move)) castlingRights enPassantTarget
                      PromoteQueen;
          evaluation \<leftarrow> minimax evaluateBoard (newBoard result) depth1 alpha beta False
                          (newEnPassantTarget result) (newCastlingRights result);
          let maxEval = max maxEval evaluation;
          let alpha = max alpha evaluation;
          if beta \<le> alpha then Some maxEval
          else minimax_max_loop evaluateBoard board depth1 enPassantTarget castlingRights
                 rest maxEval alpha beta })"
| "minimax_min_loop evaluateBoard board depth1 enPassantTarget castlingRights
     moves minEval alpha beta =
     (case moves of [] \<Rightarrow> Some minEval
      | move # rest \<Rightarrow>
     do { result \<leftarrow> executeMove board (fst move) (fst (snd move)) castlingRights enPassantTarget
                      PromoteQueen;
          evaluation \<leftarrow> minimax evaluateBoard (newBoard result) depth1 alpha beta True
                          (newEnPassantTarget result) (newCastlingRights result);
          let minEval = min minEval evaluation;
          let beta = min beta evaluation;
          if beta \<le> alpha then Some minEval
          else minimax_min_loop evaluateBoard board depth1 enPassantTarget castlingRights
                 rest minEval alpha beta })"
  by pat_completeness auto
termination
  by (relation "measures [\<lambda>x. case x of Inl (_, _, d, _) \<Rightarrow> d + 1 | Inr (Inl (_, _, d, _)) \<Rightarrow> d + 1 | Inr (Inr (_, _, d, _)) \<Rightarrow> d + 1,
                          \<lambda>x. case x of Inl _ \<Rightarrow> 0 | Inr (Inl (_, _, _, _, _, ms, _)) \<Rightarrow> length ms + 1 | Inr (Inr (_, _, _, _, _, ms, _)) \<Rightarrow> length ms + 1]") auto

declare minimax.simps [simp del] minimax_max_loop.simps [simp del] minimax_min_loop.simps [simp del]

fun getAIMove_loop ::
  "Evaluation \<Rightarrow> (nat \<Rightarrow> Score \<Rightarrow> Score) \<Rightarrow> Board \<Rightarrow> nat \<Rightarrow> Position option \<Rightarrow> CastlingRights
     \<Rightarrow> Move list \<Rightarrow> nat \<Rightarrow> Move \<Rightarrow> Score \<Rightarrow> Move option" where
  "getAIMove_loop evaluateBoard perturb board difficulty enPassantTarget castlingRights
     [] i bestMove bestScore = Some bestMove"
| "getAIMove_loop evaluateBoard perturb board difficulty enPassantTarget castlingRights
     (move # moves) i bestMove bestScore =
     do { result \<leftarrow> executeMove board (fst move) (fst (snd move)) castlingRights enPassantTarget
                      PromoteQueen;
          score \<leftarrow> minimax evaluateBoard (newBoard result) difficulty NegInfinity Infinity False
                     (newEnPassantTarget result) (newCastlingRights result);
          let adjustedScore = perturb i score;
          if adjustedScore > bestScore
          then getAIMove_loop evaluateBoard perturb board difficulty enPassantTarget castlingRights
                 moves (i + 1) move adjustedScore
          else getAIMove_loop evaluateBoard perturb board difficulty enPassantTarget castlingRights
                 moves (i + 1) bestMove bestScore }"

definition getAIMove ::
  "Evaluation \<Rightarrow> (nat \<Rightarrow> Score \<Rightarrow> Score) \<Rightarrow> Board \<Rightarrow> nat \<Rightarrow> Position option \<Rightarrow> CastlingRights
     \<Rightarrow> Move option option" where
  "getAIMove evaluateBoard perturb board difficulty enPassantTarget castlingRights =
     do { moves \<leftarrow> getAllMoves board Black enPassantTarget (Some castlingRights);
          if length moves = 0 then Some None
          else map_option Some
                 (getAIMove_loop evaluateBoard perturb board difficulty enPassantTarget castlingRights
                    moves 0 (moves ! 0) NegInfinity) }"

section \<open>Vocabulary of the specification\<close>

text \<open>
  The definitions of this section are not code of the engine: they name the notions the
  specification uses when it describes the engine.
\<close>

text \<open>The forward direction of a pawn (\<^verbatim>\<open>direction\<close> in \<^verbatim>\<open>isValidMoveBasic\<close>).\<close>

definition pawn_direction :: "PieceColor \<Rightarrow> int" where
  "pawn_direction color = (if color = White then - 1 else 1)"

text \<open>A piece advances two rows when it is a pawn that moves two rows in its direction.\<close>

definition advances_two_rows :: "ChessPiece \<Rightarrow> Position \<Rightarrow> Position \<Rightarrow> bool" where
  "advances_two_rows piece from to =
     (ptype piece = Pawn \<and> row to - row from = 2 * pawn_direction (pcolor piece))"

text \<open>
  A pawn whose row changes by two in either direction, and the square one row behind
  the destination, on the mover's own side.
\<close>

definition moves_two_rows :: "ChessPiece \<Rightarrow> Position \<Rightarrow> Position \<Rightarrow> bool" where
  "moves_two_rows piece from to = (ptype piece = Pawn \<and> \<bar>row to - row from\<bar> = 2)"

definition square_behind :: "ChessPiece \<Rightarrow> Position \<Rightarrow> Position" where
  "square_behind piece to = \<lparr>row = row to - pawn_direction (pcolor piece), col = col to\<rparr>"

text \<open>The back rank of a side, and the home column of its kingside or queenside rook.\<close>

definition home_row :: "Board \<Rightarrow> PieceColor \<Rightarrow> int" where
  "home_row board color = (if color = White then board_rows board - 1 else 0)"

definition rook_home_col :: "bool \<Rightarrow> int" where
  "rook_home_col kingside = (if kingside then 8 else 0)"

definition castling_right :: "CastlingRights \<Rightarrow> PieceColor \<Rightarrow> bool \<Rightarrow> bool" where
  "castling_right rights color kingside =
     (if color = White
      then (if kingside then whiteKingside rights else whiteQueenside rights)
      else (if kingside then blackKingside rights else blackQueenside rights))"







text \<open>
  The square midway between source and destination of a move along a column: the square
  that a pawn advancing two rows skips.
\<close>

definition skipped_square :: "Position \<Rightarrow> Position \<Rightarrow> Position" where
  "skipped_square from to = \<lparr>row = (row from + row to) div 2, col = col from\<rparr>"

section \<open>Example positions\<close>

definition empty_board :: "nat \<Rightarrow> Board" where
  "empty_board rows = replicate rows (replicate 9 None)"

definition put :: "Board \<Rightarrow> nat \<Rightarrow> nat \<Rightarrow> PieceType \<Rightarrow> PieceColor \<Rightarrow> Board" where
  "put board r c t color = board[r := (board ! r)[c := Some \<lparr>ptype = t, pcolor = color\<rparr>]]"

text \<open>Two kings and a white rook on its kingside home square, on eight rows.\<close>

definition rook_ending :: Board where
  "rook_ending = put (put (put (empty_board 8) 0 4 King Black) 7 4 King White) 7 8 Rook White"

text \<open>
  Two kings and the two kingside rooks on their home squares, on eight rows; and two
  kings, the black kingside rook on its home square and a white pawn diagonally in front
  of it.
\<close>

definition rook_duel :: Board where
  "rook_duel = put rook_ending 0 8 Rook Black"


text \<open>
  Two positions with the two kings and a white knight, that differ in the squares of
  the white king and the white knight.
\<close>

definition knight_on_b :: Board where
  "knight_on_b = put (put (put (empty_board 8) 0 4 King Black) 7 4 King White) 7 1 Knight White"

definition king_on_b :: Board where
  "king_on_b = put (put (put (empty_board 8) 0 4 King Black) 7 4 Knight White) 7 1 King White"

text \<open>
  Four pieces, two of them bishops on squares of the same parity, the two others a white
  king and a white rook.
\<close>

definition rook_and_bishops :: Board where
  "rook_and_bishops =
     put (put (put (put (empty_board 8) 0 1 Bishop Black) 7 2 Bishop White) 7 4 King White)
       7 8 Rook White"

section \<open>Well-formed boards\<close>

text \<open>
  A square is inside the board when both indices address an element; a board is
  rectangular with \<open>cols\<close> columns when it has a row and every row has \<open>cols\<close> squares.
  The engine is written for nine columns (the king starts on column 4, the rooks on
  columns 0 and 8): a well-formed board is rectangular with at least nine columns.
\<close>

definition in_bounds :: "Board \<Rightarrow> int \<Rightarrow> int \<Rightarrow> bool" where
  "in_bounds board r c =
     (0 \<le> r \<and> r < int (length board) \<and> 0 \<le> c \<and> c < int (length (board ! nat r)))"

definition rectangular :: "Board \<Rightarrow> int \<Rightarrow> bool" where
  "rectangular board cols = (board \<noteq> [] \<and> (\<forall>r \<in> set board. int (length r) = cols))"

definition wf_board :: "Board \<Rightarrow> bool" where
  "wf_board board = (\<exists>cols. rectangular board cols \<and> 9 \<le> cols)"

text \<open>Source and destination on one row, one column or one diagonal.\<close>

definition aligned :: "Position \<Rightarrow> Position \<Rightarrow> bool" where
  "aligned from to =
     (row to = row from \<or> col to = col from \<or> \<bar>row to - row from\<bar> = \<bar>col to - col from\<bar>)"

text \<open>
  Castling: the direction of the king's move, and the columns strictly between two
  columns.
\<close>

definition castle_direction :: "bool \<Rightarrow> int" where
  "castle_direction kingside = (if kingside then 1 else - 1)"

definition strictly_between :: "int \<Rightarrow> int \<Rightarrow> int \<Rightarrow> bool" where
  "strictly_between a b c = (min a b < c \<and> c < max a b)"

section \<open>Boards that agree for the check test\<close>

text \<open>
  Two boards have the same occupancy when they have the same squares and the same empty
  squares. They agree for the check test of a colour when they have the same dimensions
  and every square holds the same content in both, or holds in both a piece of that
  colour that is not a king.
\<close>

definition same_occupancy :: "Board \<Rightarrow> Board \<Rightarrow> bool" where
  "same_occupancy b1 b2 =
     (\<forall>r c. (cell b1 r c = None \<longleftrightarrow> cell b2 r c = None)
          \<and> (cell b1 r c = Some None \<longleftrightarrow> cell b2 r c = Some None))"

definition own_piece_swap :: "PieceColor \<Rightarrow> ChessPiece option option \<Rightarrow> ChessPiece option option \<Rightarrow> bool" where
  "own_piece_swap color x y =
     (\<exists>p q. x = Some (Some p) \<and> y = Some (Some q) \<and> pcolor p = color \<and> pcolor q = color
          \<and> ptype p \<noteq> King \<and> ptype q \<noteq> King)"

definition same_for_check :: "PieceColor \<Rightarrow> Board \<Rightarrow> Board \<Rightarrow> bool" where
  "same_for_check color b1 b2 =
     (board_rows b1 = board_rows b2 \<and> board_cols b1 = board_cols b2
      \<and> (\<forall>r c. cell b1 r c = cell b2 r c \<or> own_piece_swap color (cell b1 r c) (cell b2 r c)))"

section \<open>Brute-force search\<close>

text \<open>
  The unpruned fixed-depth minimax of the specification, over the same game tree as
  \<open>minimax\<close>: the static evaluation at depth 0, the terminal score for a side to move
  that is checkmated, 0 for a side to move without legal move, and otherwise the maximum
  (for the maximizing side) or the minimum (for the minimizing side) of the values of
  all the positions reached by one legal move, searched one level less deep with the
  roles swapped. No window, no cutoff.
\<close>

fun maximum :: "Score list \<Rightarrow> Score" where
  "maximum [] = NegInfinity"
| "maximum (v # vs) = max v (maximum vs)"

fun minimum :: "Score list \<Rightarrow> Score" where
  "minimum [] = Infinity"
| "minimum (v # vs) = min v (minimum vs)"

fun for_values :: "('a \<Rightarrow> 'b option) \<Rightarrow> 'a list \<Rightarrow> 'b list option" where
  "for_values f [] = Some []"
| "for_values f (x # xs) = do { v \<leftarrow> f x; vs \<leftarrow> for_values f xs; Some (v # vs) }"

fun brute_minimax ::
  "Evaluation \<Rightarrow> nat \<Rightarrow> Board \<Rightarrow> bool \<Rightarrow> Position option \<Rightarrow> CastlingRights \<Rightarrow> Score option" where
  "brute_minimax evaluateBoard 0 board isMaximizing enPassantTarget castlingRights =
     evaluateBoard board enPassantTarget (Some castlingRights)"
| "brute_minimax evaluateBoard (Suc depth1) board isMaximizing enPassantTarget castlingRights =
     do { let color = (if isMaximizing then Black else White);
          mate \<leftarrow> isCheckmate board color enPassantTarget (Some castlingRights);
          if mate then Some (if isMaximizing then Finite (- 10000) else Finite 10000)
          else do {
            moves \<leftarrow> getAllMoves board color enPassantTarget (Some castlingRights);
            if length moves = 0 then Some (Finite 0)
            else do {
              values \<leftarrow> for_values
                (\<lambda>move. do {
                   result \<leftarrow> executeMove board (fst move) (fst (snd move)) castlingRights
                               enPassantTarget PromoteQueen;
                   brute_minimax evaluateBoard depth1 (newBoard result) (\<not> isMaximizing)
                     (newEnPassantTarget result) (newCastlingRights result) })
                moves;
              Some (if isMaximizing then maximum values else minimum values) } } }"

text \<open>
  The move selection with every candidate scored by the brute-force search: the first
  move whose adjusted score is greater than the adjusted scores of the moves before it
  and at least those of the moves after it.
\<close>

fun brute_getAIMove_loop ::
  "Evaluation \<Rightarrow> (nat \<Rightarrow> Score \<Rightarrow> Score) \<Rightarrow> Board \<Rightarrow> nat \<Rightarrow> Position option \<Rightarrow> CastlingRights
     \<Rightarrow> Move list \<Rightarrow> nat \<Rightarrow> Move \<Rightarrow> Score \<Rightarrow> Move option" where
  "brute_getAIMove_loop evaluateBoard perturb board difficulty enPassantTarget castlingRights
     [] i bestMove bestScore = Some bestMove"
| "brute_getAIMove_loop evaluateBoard perturb board difficulty enPassantTarget castlingRights
     (move # moves) i bestMove bestScore =
     do { result \<leftarrow> executeMove board (fst move) (fst (snd move)) castlingRights enPassantTarget
                      PromoteQueen;
          score \<leftarrow> brute_minimax evaluateBoard difficulty (newBoard result) False
                     (newEnPassantTarget result) (newCastlingRights result);
          if perturb i score > bestScore
          then brute_getAIMove_loop evaluateBoard perturb board difficulty enPassantTarget
                 castlingRights moves (i + 1) move (perturb i score)
          else brute_getAIMove_loop evaluateBoard perturb board difficulty enPassantTarget
                 castlingRights moves (i + 1) bestMove bestScore }"

definition brute_getAIMove ::
  "Evaluation \<Rightarrow> (nat \<Rightarrow> Score \<Rightarrow> Score) \<Rightarrow> Board \<Rightarrow> nat \<Rightarrow> Position option \<Rightarrow> CastlingRights
     \<Rightarrow> Move option option" where
  "brute_getAIMove evaluateBoard perturb board difficulty enPassantTarget castlingRights =
     do { moves \<leftarrow> getAllMoves board Black enPassantTarget (Some castlingRights);
          if length moves = 0 then Some None
          else map_option Some
                 (brute_getAIMove_loop evaluateBoard perturb board difficulty enPassantTarget
                    castlingRights moves 0 (moves ! 0) NegInfinity) }"

text \<open>
  A value \<open>r\<close> returned for the window from \<open>alpha\<close> to \<open>beta\<close> agrees with the exact value
  \<open>v\<close> when it is exact inside the window, an upper bound of \<open>v\<close> at or below \<open>alpha\<close>,
  and a lower bound of \<open>v\<close> at or above \<open>beta\<close>.
\<close>

definition agrees_in_window :: "Score \<Rightarrow> Score \<Rightarrow> Score \<Rightarrow> Score \<Rightarrow> bool" where
  "agrees_in_window alpha beta v r =
     ((r \<le> alpha \<longrightarrow> v \<le> r) \<and> (alpha < r \<and> r < beta \<longrightarrow> v = r) \<and> (beta \<le> r \<longrightarrow> r \<le> v))"

text \<open>
  An evaluation for the examples: the number of black pieces minus the number of white
  pieces.
\<close>

definition piece_balance :: Evaluation where
  "piece_balance board enPassantTarget castlingRights =
     Some (Finite (real (length (filter (\<lambda>sq. case sq of Some p \<Rightarrow> pcolor p = Black | None \<Rightarrow> False)
                                   (concat board)))
                   - real (length (filter (\<lambda>sq. case sq of Some p \<Rightarrow> pcolor p = White | None \<Rightarrow> False)
                                     (concat board)))))"

section \<open>Board accesses\<close>

lemma cell_eq_None_iff: "cell board r c = None \<longleftrightarrow> \<not> in_bounds board r c"
  by (auto simp: cell_def in_bounds_def)

lemma cell_in_bounds: "in_bounds board r c \<Longrightarrow> \<exists>sq. cell board r c = Some sq"
  by (cases "cell board r c") (auto simp: cell_eq_None_iff)

lemma cell_SomeD: "cell board r c = Some sq \<Longrightarrow> in_bounds board r c"
  using cell_eq_None_iff[of board r c] by auto

lemma set_cell_eq_None_iff: "set_cell board r c v = None \<longleftrightarrow> \<not> in_bounds board r c"
  by (auto simp: set_cell_def in_bounds_def)

lemma set_cell_in_bounds: "in_bounds board r c \<Longrightarrow> \<exists>b. set_cell board r c v = Some b"
  by (cases "set_cell board r c v") (auto simp: set_cell_eq_None_iff)

lemma set_cell_SomeD: "set_cell board r c v = Some b \<Longrightarrow> in_bounds board r c"
  using set_cell_eq_None_iff[of board r c v] by auto

lemma set_cell_length:
  assumes "set_cell board r c v = Some b"
  shows "length b = length board" and "length (b ! i) = length (board ! i)"
proof -
  from assms have b: "b = board[nat r := (board ! nat r)[nat c := v]]"
    and ib: "nat r < length board"
    by (auto simp: set_cell_def split: if_splits)
  show "length b = length board" by (simp add: b)
  show "length (b ! i) = length (board ! i)"
    using ib by (cases "i = nat r") (simp_all add: b)
qed

lemma set_cell_in_bounds_iff:
  "set_cell board r c v = Some b \<Longrightarrow> in_bounds b r' c' = in_bounds board r' c'"
  by (simp add: in_bounds_def set_cell_length)

lemma set_cell_rows: "set_cell board r c v = Some b \<Longrightarrow> board_rows b = board_rows board"
  by (simp add: board_rows_def set_cell_length)

lemma board_cols_eq: "board_cols board = (if board = [] then None else Some (int (length (board ! 0))))"
  by (cases board) (simp_all add: board_cols_def)

lemma set_cell_cols: "set_cell board r c v = Some b \<Longrightarrow> board_cols b = board_cols board"
  using set_cell_length[of board r c v b] by (auto simp: board_cols_eq)

lemma set_cell_cell:
  assumes "set_cell board r c v = Some b"
  shows "cell b r' c' = (if r' = r \<and> c' = c then Some v else cell board r' c')"
proof -
  from assms have b: "b = board[nat r := (board ! nat r)[nat c := v]]"
    and ib: "0 \<le> r" "r < int (length board)" "0 \<le> c" "c < int (length (board ! nat r))"
    by (auto simp: set_cell_def split: if_splits)
  show ?thesis
  proof (cases "r' = r")
    case True
    then show ?thesis
      using ib by (cases "c' = c") (auto simp: cell_def b nth_list_update)
  next
    case False
    then have "0 \<le> r' \<Longrightarrow> nat r' \<noteq> nat r" using ib by auto
    then show ?thesis
      using False by (auto simp: cell_def b nth_list_update)
  qed
qed

lemma set_cell_rectangular:
  assumes "set_cell board r c v = Some b" and "rectangular board cols"
  shows "rectangular b cols"
proof -
  have "length b = length board" using assms(1) by (rule set_cell_length)
  moreover have "\<forall>i < length b. int (length (b ! i)) = cols"
    using assms by (auto simp: rectangular_def set_cell_length)
  ultimately show ?thesis
    using assms(2) by (auto simp: rectangular_def in_set_conv_nth)
qed

lemma rectangular_in_bounds:
  "rectangular board cols \<Longrightarrow>
   in_bounds board r c \<longleftrightarrow> 0 \<le> r \<and> r < board_rows board \<and> 0 \<le> c \<and> c < cols"
  by (auto simp: rectangular_def in_bounds_def board_rows_def)

lemma rectangular_cols: "rectangular board cols \<Longrightarrow> board_cols board = Some cols"
  by (cases board) (auto simp: rectangular_def board_cols_def)

lemma rectangular_rows: "rectangular board cols \<Longrightarrow> 0 < board_rows board"
  by (auto simp: rectangular_def board_rows_def)

lemma scan_squares_iff:
  "p \<in> set (scan_squares rows cols) \<longleftrightarrow> 0 \<le> row p \<and> row p < rows \<and> 0 \<le> col p \<and> col p < cols"
proof
  assume "p \<in> set (scan_squares rows cols)"
  then show "0 \<le> row p \<and> row p < rows \<and> 0 \<le> col p \<and> col p < cols"
    by (auto simp: scan_squares_def)
next
  assume a: "0 \<le> row p \<and> row p < rows \<and> 0 \<le> col p \<and> col p < cols"
  then have "p = \<lparr>row = int (nat (row p)), col = int (nat (col p))\<rparr>" by simp
  moreover have "nat (row p) < nat rows" "nat (col p) < nat cols" using a by auto
  ultimately have "\<exists>r \<in> {0..<nat rows}. \<exists>c \<in> {0..<nat cols}. p = \<lparr>row = int r, col = int c\<rparr>"
    by (intro bexI[of _ "nat (row p)"] bexI[of _ "nat (col p)"]) simp_all
  then show "p \<in> set (scan_squares rows cols)"
    by (auto simp: scan_squares_def)
qed

lemma scan_squares_in_bounds:
  "rectangular board cols \<Longrightarrow> p \<in> set (scan_squares (board_rows board) cols) \<Longrightarrow>
   in_bounds board (row p) (col p)"
  by (simp add: scan_squares_iff rectangular_in_bounds)

section \<open>Loops\<close>

lemma for_some_cong: "(\<And>x. x \<in> set xs \<Longrightarrow> f x = g x) \<Longrightarrow> for_some f xs = for_some g xs"
proof (induction xs)
  case Nil
  show ?case by simp
next
  case (Cons a xs)
  then have "f a = g a" and "for_some f xs = for_some g xs" by simp_all
  then show ?case by (simp only: for_some.simps)
qed

lemma for_first_cong: "(\<And>x. x \<in> set xs \<Longrightarrow> f x = g x) \<Longrightarrow> for_first f xs = for_first g xs"
proof (induction xs)
  case Nil
  show ?case by simp
next
  case (Cons a xs)
  then have "f a = g a" and "for_first f xs = for_first g xs" by simp_all
  then show ?case by (simp only: for_first.simps)
qed

lemma for_some_total: "(\<And>x. x \<in> set xs \<Longrightarrow> f x \<noteq> None) \<Longrightarrow> for_some f xs \<noteq> None"
  by (induction xs) (auto simp: bind_eq_None_conv)

lemma for_first_total: "(\<And>x. x \<in> set xs \<Longrightarrow> f x \<noteq> None) \<Longrightarrow> for_first f xs \<noteq> None"
  by (induction xs) (auto simp: bind_eq_None_conv)

lemma for_collect_total: "(\<And>x. x \<in> set xs \<Longrightarrow> f x \<noteq> None) \<Longrightarrow> for_collect f xs \<noteq> None"
  by (induction xs) (auto simp: bind_eq_None_conv)

lemma for_append_total: "(\<And>x. x \<in> set xs \<Longrightarrow> f x \<noteq> None) \<Longrightarrow> for_append f xs \<noteq> None"
  by (induction xs) (auto simp: bind_eq_None_conv)

lemma for_first_found: "for_first f xs = Some (Some x) \<Longrightarrow> x \<in> set xs \<and> f x = Some True"
  by (induction xs) (auto simp: bind_eq_Some_conv split: if_splits)

lemma for_collect_subset: "for_collect f xs = Some ys \<Longrightarrow> set ys \<subseteq> set xs"
  by (induction xs arbitrary: ys) (auto simp: bind_eq_Some_conv split: if_splits)

lemma for_some_False_iff:
  "for_some f xs = Some False \<longleftrightarrow> (\<forall>x \<in> set xs. f x = Some False)"
  by (induction xs) (auto simp: bind_eq_Some_conv split: if_splits)

lemma for_append_set:
  "for_append f xs = Some ys \<Longrightarrow> set ys = (\<Union>x \<in> set xs. set (the (f x)))"
  by (induction xs arbitrary: ys) (auto simp: bind_eq_Some_conv)

section \<open>Move execution: auxiliary state\<close>

lemma piece_eq_iff: "(p = \<lparr>ptype = t, pcolor = c\<rparr>) = (ptype p = t \<and> pcolor p = c)"
  by (cases p) auto

lemma color_neq [simp]: "(c \<noteq> White) = (c = Black)" "(c \<noteq> Black) = (c = White)"
  by (cases c; simp)+


lemma executeMove_fields:
  assumes "executeMove board from to castlingRights enPassantTarget promotionPiece = Some res"
    and "cell board (row from) (col from) = Some (Some piece)"
  shows "newEnPassantTarget res = enPassantTarget_after piece from to"
    and "newCastlingRights res =
           castlingRights_after (board_rows board) piece (captured res) from to castlingRights"
    and "getSpecialMoveType board from to enPassantTarget = Some (specialMove res)"
  using assms
  by (auto simp: executeMove_def bind_eq_Some_conv Let_def split del: if_split)




lemma executeMove_failed_source:
  "cell board (row from) (col from) = None \<Longrightarrow>
   executeMove board from to castlingRights enPassantTarget promotionPiece = None"
  by (simp add: executeMove_def)

text \<open>
  C8. When the source square is empty, \<open>executeMove\<close> returns the input board, no captured
  piece, no en-passant target, the castling rights it was given and no special move;
  and \<open>isValidMove\<close> returns false.
\<close>

theorem executeMove_missing_piece:
  assumes "cell board (row from) (col from) = Some None"
  shows "executeMove board from to castlingRights enPassantTarget promotionPiece =
           Some \<lparr>newBoard = board, captured = None, newEnPassantTarget = None,
                 newCastlingRights = castlingRights, specialMove = None\<rparr>
         \<and> isValidMove board from to enPassantTarget rights = Some False"
  using assms by (simp add: executeMove_def isValidMove_def)

theorem executeMove_missing_piece_witness:
  "cell (createInitialBoard Size9x8) 3 3 = Some None
   \<and> executeMove (createInitialBoard Size9x8) \<lparr>row = 3, col = 3\<rparr> \<lparr>row = 2, col = 3\<rparr>
        getInitialCastlingRights None PromoteQueen
      = Some \<lparr>newBoard = createInitialBoard Size9x8, captured = None, newEnPassantTarget = None,
               newCastlingRights = getInitialCastlingRights, specialMove = None\<rparr>
   \<and> isValidMove (createInitialBoard Size9x8) \<lparr>row = 3, col = 3\<rparr> \<lparr>row = 2, col = 3\<rparr>
        None (Some getInitialCastlingRights) = Some False"
proof -
  have h: "cell (createInitialBoard Size9x8) (row \<lparr>row = 3, col = 3\<rparr>) (col \<lparr>row = 3, col = 3\<rparr>)
             = Some None"
    by code_simp
  show ?thesis
    using h executeMove_missing_piece[OF h, of "\<lparr>row = 2, col = 3\<rparr>" getInitialCastlingRights
        None PromoteQueen "Some getInitialCastlingRights"]
    by simp
qed

section \<open>The accesses stay inside the board\<close>

lemma isPathClear_loop_total:
  assumes "rowDir \<noteq> 0 \<or> colDir \<noteq> 0"
    and "row to = currentRow + int n * rowDir" and "col to = currentCol + int n * colDir"
    and "\<And>k. k < n \<Longrightarrow> in_bounds board (currentRow + int k * rowDir) (currentCol + int k * colDir)"
  shows "isPathClear_loop board to rowDir colDir currentRow currentCol \<noteq> None"
  using assms
proof (induction n arbitrary: currentRow currentCol)
  case 0
  then show ?case by (subst isPathClear_loop.simps) simp
next
  case (Suc n)
  from Suc.prems(1,2,3) have ne: "currentRow \<noteq> row to \<or> currentCol \<noteq> col to" by auto
  from Suc.prems(4)[of 0] obtain sq where sq: "cell board currentRow currentCol = Some sq"
    using cell_in_bounds by fastforce
  show ?case
  proof (cases sq)
    case (Some p)
    then show ?thesis using ne sq by (subst isPathClear_loop.simps) simp
  next
    case None
    have "isPathClear_loop board to rowDir colDir (currentRow + rowDir) (currentCol + colDir) \<noteq> None"
    proof (rule Suc.IH[OF Suc.prems(1)])
      show "row to = currentRow + rowDir + int n * rowDir"
        using Suc.prems(2) by (simp add: algebra_simps)
      show "col to = currentCol + colDir + int n * colDir"
        using Suc.prems(3) by (simp add: algebra_simps)
      fix k assume "k < n"
      then have "in_bounds board (currentRow + int (Suc k) * rowDir) (currentCol + int (Suc k) * colDir)"
        by (intro Suc.prems(4)) simp
      then show "in_bounds board (currentRow + rowDir + int k * rowDir) (currentCol + colDir + int k * colDir)"
        by (simp add: algebra_simps)
    qed
    then show ?thesis using ne sq None by (subst isPathClear_loop.simps) simp
  qed
qed

lemma isPathClear_total:
  assumes rect: "rectangular board cols"
    and "in_bounds board (row from) (col from)" and "in_bounds board (row to) (col to)"
    and "aligned from to"
  shows "isPathClear board from to \<noteq> None"
proof (cases "row to = row from \<and> col to = col from")
  case True
  then show ?thesis
    unfolding isPathClear_def Let_def by (subst isPathClear_loop.simps) simp
next
  case False
  define dr where "dr = sgn (row to - row from)"
  define dc where "dc = sgn (col to - col from)"
  define n where "n = nat (max \<bar>row to - row from\<bar> \<bar>col to - col from\<bar> - 1)"
  have bf: "0 \<le> row from" "row from < board_rows board" "0 \<le> col from" "col from < cols"
    and bt: "0 \<le> row to" "row to < board_rows board" "0 \<le> col to" "col to < cols"
    using assms(2,3) rectangular_in_bounds[OF rect] by auto
  have dir: "dr \<noteq> 0 \<or> dc \<noteq> 0" using False by (auto simp: dr_def dc_def sgn_if)
  have al: "row to = row from \<or> col to = col from \<or> \<bar>row to - row from\<bar> = \<bar>col to - col from\<bar>"
    using assms(4) by (simp add: aligned_def)
  have r: "row to = row from + dr + int n * dr"
    using al False by (auto simp: dr_def n_def sgn_if algebra_simps max_def split: if_splits)
  have c: "col to = col from + dc + int n * dc"
    using al False by (auto simp: dc_def n_def sgn_if algebra_simps max_def split: if_splits)
  have ib: "in_bounds board (row from + dr + int k * dr) (col from + dc + int k * dc)" if "k < n" for k
  proof -
    have "0 \<le> row from + dr + int k * dr \<and> row from + dr + int k * dr < board_rows board"
      using that al False bf bt
      by (auto simp: dr_def n_def sgn_if algebra_simps max_def split: if_splits)
    moreover have "0 \<le> col from + dc + int k * dc \<and> col from + dc + int k * dc < cols"
      using that al False bf bt
      by (auto simp: dc_def n_def sgn_if algebra_simps max_def split: if_splits)
    ultimately show ?thesis by (simp add: rectangular_in_bounds[OF rect])
  qed
  show ?thesis
    unfolding isPathClear_def Let_def dr_def[symmetric] dc_def[symmetric]
    by (rule isPathClear_loop_total[OF dir r c ib])
qed

lemma isValidMoveBasicForAttack_total:
  assumes rect: "rectangular board cols"
    and src: "in_bounds board (row from) (col from)"
  shows "isValidMoveBasicForAttack board from to \<noteq> None"
proof (cases "row to < 0 \<or> row to \<ge> board_rows board \<or> col to < 0 \<or> col to \<ge> cols")
  case True
  then show ?thesis
    by (simp add: isValidMoveBasicForAttack_def rectangular_cols[OF rect])
next
  case False
  then have dst: "in_bounds board (row to) (col to)"
    by (simp add: rectangular_in_bounds[OF rect])
  from src obtain sq where sq: "cell board (row from) (col from) = Some sq"
    using cell_in_bounds by blast
  from dst obtain target where target: "cell board (row to) (col to) = Some target"
    using cell_in_bounds by blast
  have path: "aligned from to \<Longrightarrow> isPathClear board from to \<noteq> None"
    by (rule isPathClear_total[OF rect src dst])
  show ?thesis
  proof (cases sq)
    case None
    then show ?thesis
      using False sq by (simp add: isValidMoveBasicForAttack_def rectangular_cols[OF rect])
  next
    case (Some piece)
    show ?thesis
      using False sq target Some path
      by (cases "ptype piece")
         (auto simp: isValidMoveBasicForAttack_def rectangular_cols[OF rect] Let_def aligned_def)
  qed
qed

lemma isSquareUnderAttack_total:
  assumes rect: "rectangular board cols"
  shows "isSquareUnderAttack board position attackerColor \<noteq> None"
proof -
  have "for_some (\<lambda>p. do { sq \<leftarrow> cell board (row p) (col p);
                             case sq of
                               None \<Rightarrow> Some False
                             | Some piece \<Rightarrow>
                                 if pcolor piece = attackerColor
                                 then isValidMoveBasicForAttack board p position
                                 else Some False })
            (scan_squares (board_rows board) cols) \<noteq> None"
  proof (rule for_some_total)
    fix p assume "p \<in> set (scan_squares (board_rows board) cols)"
    then have ib: "in_bounds board (row p) (col p)" by (rule scan_squares_in_bounds[OF rect])
    then obtain sq where sq: "cell board (row p) (col p) = Some sq"
      using cell_in_bounds by blast
    show "do { sq \<leftarrow> cell board (row p) (col p);
               case sq of
                 None \<Rightarrow> Some False
               | Some piece \<Rightarrow>
                   if pcolor piece = attackerColor
                   then isValidMoveBasicForAttack board p position
                   else Some False } \<noteq> None"
      using sq isValidMoveBasicForAttack_total[OF rect ib, of position]
      by (cases sq) auto
  qed
  then show ?thesis
    by (simp add: isSquareUnderAttack_def rectangular_cols[OF rect])
qed

lemma findKingPosition_total:
  assumes rect: "rectangular board cols"
  shows "findKingPosition board kingColor \<noteq> None"
proof -
  have "for_first (\<lambda>p. do { sq \<leftarrow> cell board (row p) (col p);
                              Some (case sq of None \<Rightarrow> False
                                    | Some piece \<Rightarrow> ptype piece = King \<and> pcolor piece = kingColor) })
            (scan_squares (board_rows board) cols) \<noteq> None"
  proof (rule for_first_total)
    fix p assume "p \<in> set (scan_squares (board_rows board) cols)"
    then have "in_bounds board (row p) (col p)" by (rule scan_squares_in_bounds[OF rect])
    then obtain sq where sq: "cell board (row p) (col p) = Some sq"
      using cell_in_bounds by blast
    then show "do { sq \<leftarrow> cell board (row p) (col p);
                    Some (case sq of None \<Rightarrow> False
                          | Some piece \<Rightarrow> ptype piece = King \<and> pcolor piece = kingColor) } \<noteq> None"
      by simp
  qed
  then show ?thesis
    by (simp add: findKingPosition_def rectangular_cols[OF rect])
qed

lemma findKingPosition_found:
  assumes "findKingPosition board kingColor = Some (Some kp)"
  shows "cell board (row kp) (col kp) = Some (Some \<lparr>ptype = King, pcolor = kingColor\<rparr>)"
proof -
  from assms obtain cols where
    "for_first (\<lambda>p. do { sq \<leftarrow> cell board (row p) (col p);
                              Some (case sq of None \<Rightarrow> False
                                    | Some piece \<Rightarrow> ptype piece = King \<and> pcolor piece = kingColor) })
            (scan_squares (board_rows board) cols) = Some (Some kp)"
    by (auto simp: findKingPosition_def bind_eq_Some_conv)
  from for_first_found[OF this]
  show ?thesis
    by (auto simp: bind_eq_Some_conv piece_eq_iff split: option.splits)
qed

lemma isKingInCheck_total:
  assumes rect: "rectangular board cols"
  shows "isKingInCheck board kingColor \<noteq> None"
proof -
  from findKingPosition_total[OF rect] obtain kp where "findKingPosition board kingColor = Some kp"
    by blast
  then show ?thesis
    using isSquareUnderAttack_total[OF rect]
    by (cases kp) (auto simp: isKingInCheck_def)
qed

lemma bind_total: "m \<noteq> None \<Longrightarrow> (\<And>x. m = Some x \<Longrightarrow> f x \<noteq> None) \<Longrightarrow> Option.bind m f \<noteq> None"
  by (cases m) auto

lemma if_total: "(c \<Longrightarrow> a \<noteq> None) \<Longrightarrow> (\<not> c \<Longrightarrow> b \<noteq> None) \<Longrightarrow> (if c then a else b) \<noteq> None"
  by simp

lemma some_total: "Some x \<noteq> None"
  by simp

lemma canCastle_blocked_total:
  assumes rect: "rectangular board cols"
    and "0 \<le> r" "r < board_rows board" "0 \<le> lo" "hi < cols"
  shows "for_some (\<lambda>c. do { sq \<leftarrow> cell board r c; Some (sq \<noteq> None) }) [lo..hi] \<noteq> None"
proof (rule for_some_total)
  fix c assume "c \<in> set [lo..hi]"
  then have "in_bounds board r c"
    using assms by (simp add: rectangular_in_bounds[OF rect])
  then obtain sq where "cell board r c = Some sq" using cell_in_bounds by blast
  then show "do { sq \<leftarrow> cell board r c; Some (sq \<noteq> None) } \<noteq> None" by simp
qed

lemma canCastle_total:
  assumes rect: "rectangular board cols" and cols: "9 \<le> cols"
  shows "canCastle board from to color castlingRights \<noteq> None"
proof -
  define kingRow where "kingRow = (if color = White then board_rows board - 1 else 0)"
  have kr: "0 \<le> kingRow" "kingRow < board_rows board"
    using rectangular_rows[OF rect] by (auto simp: kingRow_def)
  have chk: "isKingInCheck board color \<noteq> None" by (rule isKingInCheck_total[OF rect])
  have rook: "cell board kingRow (if b then 8 else 0) \<noteq> None" for b
    using kr cols by (simp_all add: cell_eq_None_iff rectangular_in_bounds[OF rect])
  have attacked: "for_some (\<lambda>i. isSquareUnderAttack board \<lparr>row = kingRow, col = 4 + d * i\<rparr> (opponent color))
                    [1, 2] \<noteq> None" for d
    by (rule for_some_total) (rule isSquareUnderAttack_total[OF rect])
  show ?thesis
    unfolding canCastle_def Let_def kingRow_def[symmetric]
    by (intro if_total bind_total some_total chk rook attacked canCastle_blocked_total[OF rect])
       (use kr cols in \<open>simp_all add: min_def max_def\<close>)
qed

lemma case_option_total:
  "(x = None \<Longrightarrow> a \<noteq> None) \<Longrightarrow> (\<And>y. x = Some y \<Longrightarrow> f y \<noteq> None) \<Longrightarrow>
   (case x of None \<Rightarrow> a | Some y \<Rightarrow> f y) \<noteq> None"
  by (cases x) auto

text \<open>The body of \<open>isValidMoveBasic\<close> after the bounds check and the two reads.\<close>

lemma isValidMoveBasic_piece:
  assumes "board_cols board = Some cols"
    and "\<not> (row to < 0 \<or> row to \<ge> board_rows board \<or> col to < 0 \<or> col to \<ge> cols)"
    and "cell board (row from) (col from) = Some (Some piece)"
    and "cell board (row to) (col to) = Some target"
  shows "isValidMoveBasic board from to enPassantTarget castlingRights =
      (if same_color_target target piece then Some False
                else if row from = row to \<and> col from = col to then Some False
                else
                  let rowDiff = row to - row from;
                      colDiff = col to - col from;
                      absRowDiff = \<bar>rowDiff\<bar>;
                      absColDiff = \<bar>colDiff\<bar>;
                      whiteStartRow = board_rows board - 2;
                      blackStartRow = 1
                  in case ptype piece of
                       Pawn \<Rightarrow>
                         (let direction = (if pcolor piece = White then - 1 else 1);
                              startRow = (if pcolor piece = White then whiteStartRow else blackStartRow)
                          in do {
                            forward \<leftarrow>
                              (if colDiff = 0 \<and> target = None then
                                 (if rowDiff = direction then Some True
                                  else if row from = startRow \<and> rowDiff = 2 * direction then
                                    do { mid \<leftarrow> cell board (row from + direction) (col from);
                                         Some (mid = None) }
                                  else Some False)
                               else Some False);
                            if forward then Some True
                            else if absColDiff = 1 \<and> rowDiff = direction then
                              (if target \<noteq> None then Some True
                               else if ep_matches enPassantTarget to then Some True
                               else Some False)
                            else Some False })
                     | Knight \<Rightarrow>
                         Some ((absRowDiff = 2 \<and> absColDiff = 1) \<or> (absRowDiff = 1 \<and> absColDiff = 2))
                     | Bishop \<Rightarrow>
                         (if absRowDiff \<noteq> absColDiff then Some False
                          else isPathClear board from to)
                     | Rook \<Rightarrow>
                         (if rowDiff \<noteq> 0 \<and> colDiff \<noteq> 0 then Some False
                          else isPathClear board from to)
                     | Queen \<Rightarrow>
                         (if absRowDiff \<noteq> absColDiff \<and> rowDiff \<noteq> 0 \<and> colDiff \<noteq> 0 then Some False
                          else isPathClear board from to)
                     | King \<Rightarrow>
                         (if absRowDiff \<le> 1 \<and> absColDiff \<le> 1 then Some True
                          else case castlingRights of
                                 None \<Rightarrow> Some False
                               | Some rights \<Rightarrow>
                                   if absRowDiff = 0 \<and> absColDiff = 2
                                   then canCastle board from to (pcolor piece) rights
                                   else Some False))"
  using assms
  by (simp add: isValidMoveBasic_def del: Let_def split del: if_split cong: if_cong)

lemma isValidMoveBasic_TrueD:
  assumes "isValidMoveBasic board from to enPassantTarget castlingRights = Some True"
  obtains cols piece target where
    "board_cols board = Some cols"
    "\<not> (row to < 0 \<or> row to \<ge> board_rows board \<or> col to < 0 \<or> col to \<ge> cols)"
    "cell board (row from) (col from) = Some (Some piece)"
    "cell board (row to) (col to) = Some target"
    "\<not> same_color_target target piece"
    "\<not> (row from = row to \<and> col from = col to)"
proof (cases "board_cols board")
  case None
  with assms show ?thesis by (simp add: isValidMoveBasic_def)
next
  case (Some cols)
  note cols = this
  show ?thesis
  proof (cases "row to < 0 \<or> row to \<ge> board_rows board \<or> col to < 0 \<or> col to \<ge> cols")
    case True
    with assms cols show ?thesis by (simp add: isValidMoveBasic_def)
  next
    case False
    note rng = this
    show ?thesis
    proof (cases "cell board (row from) (col from)")
      case None
      with assms cols rng show ?thesis by (simp add: isValidMoveBasic_def)
    next
      case (Some sq)
      note sq = this
      show ?thesis
      proof (cases sq)
        case None
        with assms cols rng sq show ?thesis by (simp add: isValidMoveBasic_def)
      next
        case (Some piece)
        with sq have pc: "cell board (row from) (col from) = Some (Some piece)" by simp
        show ?thesis
        proof (cases "cell board (row to) (col to)")
          case None
          with assms cols rng pc show ?thesis by (simp add: isValidMoveBasic_def)
        next
          case (Some target)
          have "\<not> same_color_target target piece" "\<not> (row from = row to \<and> col from = col to)"
            using assms unfolding isValidMoveBasic_piece[OF cols rng pc Some]
            by (auto split: if_splits)
          with cols rng pc Some show ?thesis using that by blast
        qed
      qed
    qed
  qed
qed

lemma isValidMoveBasic_total:
  assumes rect: "rectangular board cols" and cols: "9 \<le> cols"
    and src: "in_bounds board (row from) (col from)"
  shows "isValidMoveBasic board from to enPassantTarget castlingRights \<noteq> None"
proof (cases "row to < 0 \<or> row to \<ge> board_rows board \<or> col to < 0 \<or> col to \<ge> cols")
  case True
  then show ?thesis
    by (simp add: isValidMoveBasic_def rectangular_cols[OF rect])
next
  case False
  then have dst: "in_bounds board (row to) (col to)"
    by (simp add: rectangular_in_bounds[OF rect])
  from src obtain sq where sq: "cell board (row from) (col from) = Some sq"
    using cell_in_bounds by blast
  from dst obtain target where target: "cell board (row to) (col to) = Some target"
    using cell_in_bounds by blast
  have path: "aligned from to \<Longrightarrow> isPathClear board from to \<noteq> None"
    by (rule isPathClear_total[OF rect src dst])
  have castle: "canCastle board from to color rights \<noteq> None" for color rights
    by (rule canCastle_total[OF rect cols])
  have mid: "cell board (row from + d) (col from) \<noteq> None"
    if "row to - row from = 2 * d" "d = 1 \<or> d = - 1" for d
    using that src dst by (auto simp: cell_eq_None_iff rectangular_in_bounds[OF rect])
  show ?thesis
  proof (cases sq)
    case None
    then show ?thesis
      using False sq by (simp add: isValidMoveBasic_def rectangular_cols[OF rect])
  next
    case (Some piece)
    with sq have pc: "cell board (row from) (col from) = Some (Some piece)" by simp
    note start = isValidMoveBasic_piece[OF rectangular_cols[OF rect] False pc target]
    show ?thesis
    proof (cases "ptype piece")
      case King
      show ?thesis
        unfolding start Let_def King PieceType.case
        by (intro if_total some_total case_option_total castle)
    next
      case Queen
      show ?thesis
        unfolding start Let_def Queen PieceType.case
        by (intro if_total some_total path) (auto simp: aligned_def)
    next
      case Rook
      show ?thesis
        unfolding start Let_def Rook PieceType.case
        by (intro if_total some_total path) (auto simp: aligned_def)
    next
      case Bishop
      show ?thesis
        unfolding start Let_def Bishop PieceType.case
        by (intro if_total some_total path) (auto simp: aligned_def)
    next
      case Knight
      show ?thesis
        unfolding start Let_def Knight PieceType.case
        by (intro if_total some_total)
    next
      case Pawn
      show ?thesis
        unfolding start Let_def Pawn PieceType.case
        by (intro if_total some_total bind_total mid) auto
    qed
  qed
qed

section \<open>Castling\<close>

lemma between_4_8: "(\<forall>c::int. 4 < c \<and> c < 8 \<longrightarrow> P c) \<longleftrightarrow> P 5 \<and> P 6 \<and> P 7"
proof
  assume a: "\<forall>c. 4 < c \<and> c < 8 \<longrightarrow> P c"
  show "P 5 \<and> P 6 \<and> P 7" using a by simp
next
  assume a: "P 5 \<and> P 6 \<and> P 7"
  show "\<forall>c. 4 < c \<and> c < 8 \<longrightarrow> P c"
  proof (intro allI impI)
    fix c :: int assume "4 < c \<and> c < 8"
    then have "c = 5 \<or> c = 6 \<or> c = 7" by arith
    with a show "P c" by auto
  qed
qed

lemma between_0_4: "(\<forall>c::int. 0 < c \<and> c < 4 \<longrightarrow> P c) \<longleftrightarrow> P 1 \<and> P 2 \<and> P 3"
proof
  assume a: "\<forall>c. 0 < c \<and> c < 4 \<longrightarrow> P c"
  show "P 1 \<and> P 2 \<and> P 3" using a by simp
next
  assume a: "P 1 \<and> P 2 \<and> P 3"
  show "\<forall>c. 0 < c \<and> c < 4 \<longrightarrow> P c"
  proof (intro allI impI)
    fix c :: int assume "0 < c \<and> c < 4"
    then have "c = 1 \<or> c = 2 \<or> c = 3" by arith
    with a show "P c" by auto
  qed
qed

lemma if_False_eq_True [simp]:
  "((if c then Some False else r) = Some True) \<longleftrightarrow> (\<not> c \<and> r = Some True)"
  by simp

lemma bind_bool_eq_True:
  "(do { x \<leftarrow> m; if x then Some False else r } = Some True) \<longleftrightarrow> (m = Some False \<and> r = Some True)"
  by (cases m) auto

lemma blocked3:
  "for_some (\<lambda>c. do { sq \<leftarrow> cell board r c; Some (sq \<noteq> None) }) [a, b, c] = Some False
   \<longleftrightarrow> cell board r a = Some None \<and> cell board r b = Some None \<and> cell board r c = Some None"
  unfolding for_some_False_iff by (auto simp: bind_eq_Some_conv)

lemma attacked2:
  "for_some f [a, b] = Some False \<longleftrightarrow> f a = Some False \<and> f b = Some False"
  unfolding for_some_False_iff by simp

lemma rook_cell_iff:
  "(\<exists>rook. cell board r c = Some rook
      \<and> \<not> (case rook of None \<Rightarrow> True | Some rk \<Rightarrow> ptype rk \<noteq> Rook \<or> pcolor rk \<noteq> color) \<and> P)
   \<longleftrightarrow> cell board r c = Some (Some \<lparr>ptype = Rook, pcolor = color\<rparr>) \<and> P"
  by (auto simp: piece_eq_iff split: option.splits)

lemma canCastle_kingside:
  assumes "col from < col to"
  shows "canCastle board from to color rights = Some True \<longleftrightarrow>
     row from = home_row board color \<and> col from = 4
   \<and> castling_right rights color True
   \<and> isKingInCheck board color = Some False
   \<and> cell board (home_row board color) 8 = Some (Some \<lparr>ptype = Rook, pcolor = color\<rparr>)
   \<and> cell board (home_row board color) 5 = Some None
   \<and> cell board (home_row board color) 6 = Some None
   \<and> cell board (home_row board color) 7 = Some None
   \<and> isSquareUnderAttack board \<lparr>row = home_row board color, col = 5\<rparr> (opponent color) = Some False
   \<and> isSquareUnderAttack board \<lparr>row = home_row board color, col = 6\<rparr> (opponent color) = Some False"
proof -
  have upto: "[5..7] = [5, 6, 7::int]" by (simp add: upto_rec1)
  have "canCastle board from to color rights = Some True \<longleftrightarrow>
     (row from = home_row board color \<and> col from = 4)
   \<and> castling_right rights color True
   \<and> isKingInCheck board color = Some False
   \<and> (\<exists>rook. cell board (home_row board color) 8 = Some rook
      \<and> \<not> (case rook of None \<Rightarrow> True | Some rk \<Rightarrow> ptype rk \<noteq> Rook \<or> pcolor rk \<noteq> color)
      \<and> for_some (\<lambda>c. do { sq \<leftarrow> cell board (home_row board color) c; Some (sq \<noteq> None) }) [5, 6, 7] = Some False
      \<and> for_some (\<lambda>i. isSquareUnderAttack board \<lparr>row = home_row board color, col = 4 + 1 * i\<rparr> (opponent color)) [1, 2] = Some False)"
    unfolding canCastle_def Let_def home_row_def[symmetric]
    using assms
    by (simp only: if_False_eq_True bind_bool_eq_True bind_eq_Some_conv if_True castling_right_def
         min_def max_def upto simp_thms de_Morgan_disj de_Morgan_conj not_not
         split: if_split)
       (auto simp: upto)
  then show ?thesis
    unfolding rook_cell_iff blocked3 attacked2 by simp
qed

lemma canCastle_queenside:
  assumes "\<not> col from < col to"
  shows "canCastle board from to color rights = Some True \<longleftrightarrow>
     row from = home_row board color \<and> col from = 4
   \<and> castling_right rights color False
   \<and> isKingInCheck board color = Some False
   \<and> cell board (home_row board color) 0 = Some (Some \<lparr>ptype = Rook, pcolor = color\<rparr>)
   \<and> cell board (home_row board color) 1 = Some None
   \<and> cell board (home_row board color) 2 = Some None
   \<and> cell board (home_row board color) 3 = Some None
   \<and> isSquareUnderAttack board \<lparr>row = home_row board color, col = 3\<rparr> (opponent color) = Some False
   \<and> isSquareUnderAttack board \<lparr>row = home_row board color, col = 2\<rparr> (opponent color) = Some False"
proof -
  have upto: "[1..3] = [1, 2, 3::int]" by (simp add: upto_rec1)
  have "canCastle board from to color rights = Some True \<longleftrightarrow>
     (row from = home_row board color \<and> col from = 4)
   \<and> castling_right rights color False
   \<and> isKingInCheck board color = Some False
   \<and> (\<exists>rook. cell board (home_row board color) 0 = Some rook
      \<and> \<not> (case rook of None \<Rightarrow> True | Some rk \<Rightarrow> ptype rk \<noteq> Rook \<or> pcolor rk \<noteq> color)
      \<and> for_some (\<lambda>c. do { sq \<leftarrow> cell board (home_row board color) c; Some (sq \<noteq> None) }) [1, 2, 3] = Some False
      \<and> for_some (\<lambda>i. isSquareUnderAttack board \<lparr>row = home_row board color, col = 4 + (- 1) * i\<rparr> (opponent color)) [1, 2] = Some False)"
    unfolding canCastle_def Let_def home_row_def[symmetric]
    using assms
    by (simp only: if_False_eq_True bind_bool_eq_True bind_eq_Some_conv if_False castling_right_def
         min_def max_def upto simp_thms de_Morgan_disj de_Morgan_conj not_not
         split: if_split)
       (auto simp: upto)
  then show ?thesis
    unfolding rook_cell_iff blocked3 attacked2 by simp
qed

text \<open>
  C2. \<open>canCastle\<close> returns true iff the king's square \<open>from\<close> is the home square of the king
  (column 4 of the side's back rank), the right of the side and direction is granted,
  the king is not in check, the rook of the side stands on its home square (column 8
  for the kingside, column 0 for the queenside), every square strictly between king and
  rook is empty, and neither the square one step nor the square two steps from the king
  in the castling direction is attacked by the opponent. The direction is kingside iff
  the destination column is greater than the source column.
\<close>

theorem canCastle_iff:
  "canCastle board from to color rights = Some True \<longleftrightarrow>
     (row from = home_row board color \<and> col from = 4)
   \<and> castling_right rights color (col from < col to)
   \<and> isKingInCheck board color = Some False
   \<and> cell board (home_row board color) (rook_home_col (col from < col to))
       = Some (Some \<lparr>ptype = Rook, pcolor = color\<rparr>)
   \<and> (\<forall>c. strictly_between 4 (rook_home_col (col from < col to)) c \<longrightarrow>
          cell board (home_row board color) c = Some None)
   \<and> (\<forall>i \<in> {1, 2}.
          isSquareUnderAttack board
            \<lparr>row = home_row board color, col = 4 + i * castle_direction (col from < col to)\<rparr>
            (opponent color) = Some False)"
proof (cases "col from < col to")
  case True
  show ?thesis
    unfolding canCastle_kingside[OF True]
    by (simp add: True rook_home_col_def strictly_between_def castle_direction_def between_4_8)
next
  case False
  show ?thesis
    unfolding canCastle_queenside[OF False]
    by (auto simp add: False rook_home_col_def strictly_between_def castle_direction_def between_0_4)
qed

theorem canCastle_iff_witness:
  "canCastle rook_ending \<lparr>row = 7, col = 4\<rparr> \<lparr>row = 7, col = 6\<rparr> White getInitialCastlingRights
     = Some True
   \<and> isKingInCheck rook_ending White = Some False
   \<and> cell rook_ending 7 8 = Some (Some \<lparr>ptype = Rook, pcolor = White\<rparr>)
   \<and> cell rook_ending 7 5 = Some None
   \<and> isSquareUnderAttack rook_ending \<lparr>row = 7, col = 6\<rparr> Black = Some False"
proof -
  have c: "canCastle rook_ending \<lparr>row = 7, col = 4\<rparr> \<lparr>row = 7, col = 6\<rparr> White
             getInitialCastlingRights = Some True"
    by code_simp
  have h: "home_row rook_ending White = 7"
    by (simp add: home_row_def board_rows_def rook_ending_def put_def empty_board_def)
  show ?thesis
    using c canCastle_iff[of rook_ending "\<lparr>row = 7, col = 4\<rparr>" "\<lparr>row = 7, col = 6\<rparr>" White
        getInitialCastlingRights]
    by (simp add: h rook_home_col_def strictly_between_def castle_direction_def opponent_def)
qed

section \<open>Move validation\<close>

lemma valid_pawn_rows:
  assumes "isValidMoveBasic board from to enPassantTarget castlingRights = Some True"
    and "cell board (row from) (col from) = Some (Some piece)" and "ptype piece = Pawn"
  shows "row to - row from = pawn_direction (pcolor piece)
         \<or> row to - row from = 2 * pawn_direction (pcolor piece)"
proof -
  from assms(1) obtain cols piece' target where f:
    "board_cols board = Some cols"
    "\<not> (row to < 0 \<or> row to \<ge> board_rows board \<or> col to < 0 \<or> col to \<ge> cols)"
    "cell board (row from) (col from) = Some (Some piece')"
    "cell board (row to) (col to) = Some target"
    by (rule isValidMoveBasic_TrueD)
  with assms(2) have [simp]: "piece' = piece" by simp
  show ?thesis
    using assms(1,3) unfolding isValidMoveBasic_piece[OF f] Let_def
    by (auto simp: pawn_direction_def bind_eq_Some_conv split: if_splits)
qed

lemma wouldMoveLeaveKingInCheck_total:
  assumes rect: "rectangular board cols" and cols: "9 \<le> cols"
    and valid: "isValidMoveBasic board from to enPassantTarget castlingRights = Some True"
  shows "wouldMoveLeaveKingInCheck board from to playerColor enPassantTarget \<noteq> None"
proof -
  from valid obtain cols' piece target where f:
    "board_cols board = Some cols'"
    "\<not> (row to < 0 \<or> row to \<ge> board_rows board \<or> col to < 0 \<or> col to \<ge> cols')"
    "cell board (row from) (col from) = Some (Some piece)"
    "cell board (row to) (col to) = Some target"
    by (rule isValidMoveBasic_TrueD)
  have [simp]: "cols' = cols" using f(1) rectangular_cols[OF rect] by simp
  note ib = rectangular_in_bounds
  have src: "in_bounds board (row from) (col from)" using f(3) by (rule cell_SomeD)
  have dst: "in_bounds board (row to) (col to)" using f(4) by (rule cell_SomeD)
  from dst obtain b1 where b1: "set_cell board (row to) (col to) (Some piece) = Some b1"
    using set_cell_in_bounds by blast
  have r1: "rectangular b1 cols" by (rule set_cell_rectangular[OF b1 rect])
  have rows1: "board_rows b1 = board_rows board" by (rule set_cell_rows[OF b1])
  from src obtain b2 where b2: "set_cell b1 (row from) (col from) None = Some b2"
    using set_cell_in_bounds[of b1] set_cell_in_bounds_iff[OF b1] by blast
  have r2: "rectangular b2 cols" by (rule set_cell_rectangular[OF b2 r1])
  have rows2: "board_rows b2 = board_rows board" using set_cell_rows[OF b2] rows1 by simp
  have rng: "0 \<le> row from" "row from < board_rows board" "0 \<le> col from" "col from < cols"
    "0 \<le> row to" "row to < board_rows board" "0 \<le> col to" "col to < cols"
    using src dst by (simp_all add: ib[OF rect])
  obtain b3 where b3:
    "(if ptype piece = Pawn \<and> ep_matches enPassantTarget to then
        (let capturedPawnRow = (if pcolor piece = White then row to + 1 else row to - 1)
         in set_cell b2 capturedPawnRow (col to) None)
      else Some b2) = Some b3" and r3: "rectangular b3 cols"
  proof (cases "ptype piece = Pawn \<and> ep_matches enPassantTarget to")
    case True
    have "in_bounds b2 (if pcolor piece = White then row to + 1 else row to - 1) (col to)"
      using valid_pawn_rows[OF valid f(3)] True rng
      by (auto simp: ib[OF r2] rows2 pawn_direction_def)
    then obtain b where b: "set_cell b2 (if pcolor piece = White then row to + 1 else row to - 1)
        (col to) None = Some b"
      using set_cell_in_bounds by blast
    show ?thesis
      by (rule that[of b]) (use True b set_cell_rectangular[OF b r2] in simp_all)
  next
    case False
    show ?thesis
      by (rule that[of b2]) (use False r2 in auto)
  qed
  have rows3: "board_rows b3 = board_rows board"
    using b3 rows2 by (auto simp: set_cell_rows Let_def split: if_splits)
  obtain b4 where b4:
    "(if ptype piece = King \<and> \<bar>col to - col from\<bar> = 2 then
        (let isKingside = (col to > col from);
             rookFromCol = (if isKingside then 8 else 0);
             rookToCol = (if isKingside then col to - 1 else col to + 1)
         in do { rook \<leftarrow> cell b3 (row to) rookFromCol;
                 nb \<leftarrow> set_cell b3 (row to) rookToCol rook;
                 set_cell nb (row to) rookFromCol None })
      else Some b3) = Some b4" and r4: "rectangular b4 cols"
  proof (cases "ptype piece = King \<and> \<bar>col to - col from\<bar> = 2")
    case True
    define rf :: int where "rf = (if col to > col from then 8 else 0)"
    define rt where "rt = (if col to > col from then col to - 1 else col to + 1)"
    have "in_bounds b3 (row to) rf" "in_bounds b3 (row to) rt"
      using rng cols True by (auto simp: ib[OF r3] rows3 rf_def rt_def)
    then obtain rook nb where rook: "cell b3 (row to) rf = Some rook"
      and nb: "set_cell b3 (row to) rt rook = Some nb"
      using cell_in_bounds set_cell_in_bounds by blast
    have "in_bounds nb (row to) rf"
      using \<open>in_bounds b3 (row to) rf\<close> set_cell_in_bounds_iff[OF nb] by simp
    then obtain b where b: "set_cell nb (row to) rf None = Some b"
      using set_cell_in_bounds by blast
    have "rectangular b cols"
      using set_cell_rectangular[OF b set_cell_rectangular[OF nb r3]] .
    then show ?thesis
      by (intro that[of b]) (use True rook nb b in \<open>simp_all add: rf_def rt_def\<close>)
  next
    case False
    show ?thesis
      by (rule that[of b3]) (use False r3 in auto)
  qed
  have "wouldMoveLeaveKingInCheck board from to playerColor enPassantTarget
          = isKingInCheck b4 playerColor"
    unfolding wouldMoveLeaveKingInCheck_def
    by (simp only: Let_def f(3) b1 b2 b3[unfolded Let_def] b4[unfolded Let_def]
        Option.bind.simps option.case)
  then show ?thesis
    using isKingInCheck_total[OF r4, of playerColor] by simp
qed

lemma isValidMove_total:
  assumes rect: "rectangular board cols" and cols: "9 \<le> cols"
    and src: "in_bounds board (row from) (col from)"
  shows "isValidMove board from to enPassantTarget castlingRights \<noteq> None"
proof -
  from src obtain sq where sq: "cell board (row from) (col from) = Some sq"
    using cell_in_bounds by blast
  show ?thesis
  proof (cases sq)
    case None
    with sq show ?thesis by (simp add: isValidMove_def)
  next
    case (Some piece)
    from isValidMoveBasic_total[OF rect cols src] obtain basic where
      basic: "isValidMoveBasic board from to enPassantTarget castlingRights = Some basic" by blast
    show ?thesis
    proof (cases basic)
      case True
      with basic wouldMoveLeaveKingInCheck_total[OF rect cols, of "from" "to" enPassantTarget castlingRights "pcolor piece"]
      show ?thesis using sq Some by (auto simp: isValidMove_def)
    next
      case False
      with basic sq Some show ?thesis by (simp add: isValidMove_def)
    qed
  qed
qed

lemma isValidMove_source_outside:
  assumes "\<not> in_bounds board (row from) (col from)"
  shows "isValidMove board from to enPassantTarget castlingRights = None"
    and "rectangular board cols \<Longrightarrow> in_bounds board (row to) (col to) \<Longrightarrow>
         isValidMoveBasic board from to enPassantTarget castlingRights = None"
proof -
  from assms have c: "cell board (row from) (col from) = None"
    by (simp add: cell_eq_None_iff)
  show "isValidMove board from to enPassantTarget castlingRights = None"
    by (simp add: isValidMove_def c)
  assume rect: "rectangular board cols" and dst: "in_bounds board (row to) (col to)"
  show "isValidMoveBasic board from to enPassantTarget castlingRights = None"
    using dst c
    by (simp add: isValidMoveBasic_def rectangular_cols[OF rect] rectangular_in_bounds[OF rect])
qed

text \<open>
  C10. On a well-formed board and for a source square inside the board, \<open>isValidMove\<close> and
  \<open>isValidMoveBasic\<close> return a value for every destination, inside the board or not, and
  \<open>isPathClear\<close> returns a value for every destination inside the board that is aligned
  with the source: no access of these runs leaves the board, and the loop of
  \<open>isPathClear\<close> terminates. For a source square outside the board \<open>isValidMove\<close> indexes
  outside the board, and so does \<open>isValidMoveBasic\<close> whenever the destination passes its
  bounds check.
\<close>

theorem move_validation_in_bounds:
  assumes "wf_board board"
  shows "(in_bounds board (row from) (col from) \<longrightarrow>
            isValidMove board from to enPassantTarget castlingRights \<noteq> None
          \<and> isValidMoveBasic board from to enPassantTarget castlingRights \<noteq> None
          \<and> (in_bounds board (row to) (col to) \<and> aligned from to \<longrightarrow>
               isPathClear board from to \<noteq> None))
       \<and> (\<not> in_bounds board (row from) (col from) \<longrightarrow>
            isValidMove board from to enPassantTarget castlingRights = None
          \<and> (in_bounds board (row to) (col to) \<longrightarrow>
               isValidMoveBasic board from to enPassantTarget castlingRights = None))"
proof -
  from assms obtain cols where rect: "rectangular board cols" and cols: "9 \<le> cols"
    by (auto simp: wf_board_def)
  show ?thesis
    using isValidMove_total[OF rect cols] isValidMoveBasic_total[OF rect cols]
      isPathClear_total[OF rect] isValidMove_source_outside(1)
      isValidMove_source_outside(2)[OF _ rect]
    by blast
qed

lemma wf_board_initial: "wf_board (createInitialBoard Size9x8)"
  unfolding wf_board_def
  by (rule exI[of _ 9])
     (simp add: rectangular_def createInitialBoard_def getBoardDimensions_def backRow_def)

theorem move_validation_in_bounds_witness:
  "wf_board (createInitialBoard Size9x8)
   \<and> in_bounds (createInitialBoard Size9x8) 7 3
   \<and> isValidMove (createInitialBoard Size9x8) \<lparr>row = 7, col = 3\<rparr> \<lparr>row = - 1, col = 11\<rparr>
        None (Some getInitialCastlingRights) \<noteq> None
   \<and> isValidMoveBasic (createInitialBoard Size9x8) \<lparr>row = 7, col = 3\<rparr> \<lparr>row = - 1, col = 11\<rparr>
        None (Some getInitialCastlingRights) \<noteq> None
   \<and> aligned \<lparr>row = 7, col = 3\<rparr> \<lparr>row = 3, col = 7\<rparr>
   \<and> isPathClear (createInitialBoard Size9x8) \<lparr>row = 7, col = 3\<rparr> \<lparr>row = 3, col = 7\<rparr> \<noteq> None
   \<and> \<not> in_bounds (createInitialBoard Size9x8) 8 3
   \<and> isValidMove (createInitialBoard Size9x8) \<lparr>row = 8, col = 3\<rparr> \<lparr>row = 7, col = 3\<rparr>
        None (Some getInitialCastlingRights) = None"
proof -
  have ib: "in_bounds (createInitialBoard Size9x8) 7 3" "in_bounds (createInitialBoard Size9x8) 3 7"
    "\<not> in_bounds (createInitialBoard Size9x8) 8 3"
    by (simp_all add: in_bounds_def createInitialBoard_def getBoardDimensions_def backRow_def
        nth_append)
  have al: "aligned \<lparr>row = 7, col = 3\<rparr> \<lparr>row = 3, col = 7\<rparr>"
    by (simp add: aligned_def)
  show ?thesis
    using ib al wf_board_initial
      move_validation_in_bounds[OF wf_board_initial, of "\<lparr>row = 7, col = 3\<rparr>"
        "\<lparr>row = - 1, col = 11\<rparr>" None "Some getInitialCastlingRights"]
      move_validation_in_bounds[OF wf_board_initial, of "\<lparr>row = 7, col = 3\<rparr>"
        "\<lparr>row = 3, col = 7\<rparr>" None "Some getInitialCastlingRights"]
      move_validation_in_bounds[OF wf_board_initial, of "\<lparr>row = 8, col = 3\<rparr>"
        "\<lparr>row = 7, col = 3\<rparr>" None "Some getInitialCastlingRights"]
    by simp
qed

section \<open>The check test on boards that agree\<close>

lemma isPathClear_loop_occupancy_Some:
  assumes run: "isPathClear_loop b1 to rowDir colDir currentRow currentCol = Some v"
    and occ: "same_occupancy b1 b2"
  shows "isPathClear_loop b2 to rowDir colDir currentRow currentCol = Some v"
proof -
  have "same_occupancy b1 b2 \<longrightarrow>
        isPathClear_loop b2 to rowDir colDir currentRow currentCol = Some v"
  proof (rule isPathClear_loop.raw_induct[where
        P = "\<lambda>board to rowDir colDir currentRow currentCol y. same_occupancy board b2 \<longrightarrow>
               isPathClear_loop b2 to rowDir colDir currentRow currentCol = Some y", OF _ run],
      goal_cases)
    case (1 f board to rowDir colDir currentRow currentCol y)
    show ?case
    proof
      assume o: "same_occupancy board b2"
      show "isPathClear_loop b2 to rowDir colDir currentRow currentCol = Some y"
      proof (cases "currentRow \<noteq> row to \<or> currentCol \<noteq> col to")
        case False
        with 1(2) show ?thesis by (subst isPathClear_loop.simps) simp
      next
        case True
        with 1(2) obtain sq where sq: "cell board currentRow currentCol = Some sq"
          and rest: "(if sq \<noteq> None then Some False
                      else f board to rowDir colDir (currentRow + rowDir) (currentCol + colDir)) = Some y"
          by (auto simp: bind_eq_Some_conv)
        from o sq obtain sq2 where sq2: "cell b2 currentRow currentCol = Some sq2"
          and emp: "sq2 = None \<longleftrightarrow> sq = None"
          unfolding same_occupancy_def
          by (metis not_Some_eq)
        show ?thesis
        proof (cases "sq = None")
          case True
          with rest have "f board to rowDir colDir (currentRow + rowDir) (currentCol + colDir) = Some y"
            by simp
          from 1(1)[OF this] o
          have "isPathClear_loop b2 to rowDir colDir (currentRow + rowDir) (currentCol + colDir) = Some y"
            by simp
          then show ?thesis
            using \<open>currentRow \<noteq> row to \<or> currentCol \<noteq> col to\<close> sq2 emp True
            by (subst isPathClear_loop.simps) simp
        next
          case False
          with rest have "y = False" by simp
          then show ?thesis
            using \<open>currentRow \<noteq> row to \<or> currentCol \<noteq> col to\<close> sq2 emp False
            by (subst isPathClear_loop.simps) simp
        qed
      qed
    qed
  qed
  with occ show ?thesis by simp
qed

lemma same_occupancy_sym: "same_occupancy b1 b2 \<Longrightarrow> same_occupancy b2 b1"
  by (simp add: same_occupancy_def)

lemma isPathClear_loop_occupancy:
  assumes "same_occupancy b1 b2"
  shows "isPathClear_loop b1 to rowDir colDir currentRow currentCol
         = isPathClear_loop b2 to rowDir colDir currentRow currentCol"
proof (cases "isPathClear_loop b1 to rowDir colDir currentRow currentCol")
  case (Some v)
  with isPathClear_loop_occupancy_Some[OF Some assms] show ?thesis by simp
next
  case None
  show ?thesis
  proof (cases "isPathClear_loop b2 to rowDir colDir currentRow currentCol")
    case (Some v)
    from isPathClear_loop_occupancy_Some[OF Some same_occupancy_sym[OF assms]] None
    show ?thesis by simp
  next
    case None
    with \<open>isPathClear_loop b1 to rowDir colDir currentRow currentCol = None\<close>
    show ?thesis by simp
  qed
qed

lemma isPathClear_occupancy:
  "same_occupancy b1 b2 \<Longrightarrow> isPathClear b1 from to = isPathClear b2 from to"
  by (simp add: isPathClear_def Let_def isPathClear_loop_occupancy)

lemma same_for_check_occupancy: "same_for_check color b1 b2 \<Longrightarrow> same_occupancy b1 b2"
  unfolding same_for_check_def same_occupancy_def own_piece_swap_def
  by (metis option.distinct(1) option.inject)

lemma same_color_target_swap:
  assumes "own_piece_swap color (Some t1) (Some t2)"
  shows "same_color_target t1 piece = same_color_target t2 piece"
  using assms by (auto simp: own_piece_swap_def same_color_target_def)

lemma attack_same_for_check:
  assumes s: "same_for_check color b1 b2"
    and src: "cell b1 (row from) (col from) = cell b2 (row from) (col from)"
  shows "isValidMoveBasicForAttack b1 from to = isValidMoveBasicForAttack b2 from to"
proof -
  have rows: "board_rows b1 = board_rows b2" and cols: "board_cols b1 = board_cols b2"
    using s by (simp_all add: same_for_check_def)
  have path: "isPathClear b1 from to = isPathClear b2 from to"
    by (rule isPathClear_occupancy[OF same_for_check_occupancy[OF s]])
  have dst: "cell b1 (row to) (col to) = cell b2 (row to) (col to)
             \<or> own_piece_swap color (cell b1 (row to) (col to)) (cell b2 (row to) (col to))"
    using s by (simp add: same_for_check_def)
  show ?thesis
  proof (cases "cell b1 (row to) (col to)")
    case None
    with dst have n2: "cell b2 (row to) (col to) = None" by (auto simp: own_piece_swap_def)
    show ?thesis
      unfolding isValidMoveBasicForAttack_def rows cols src path None n2 ..
  next
    case (Some t1)
    with dst obtain t2 where t2: "cell b2 (row to) (col to) = Some t2"
      and sc: "\<And>piece. same_color_target t1 piece = same_color_target t2 piece"
      by (cases "cell b2 (row to) (col to)") (auto simp: own_piece_swap_def same_color_target_def)
    show ?thesis
      unfolding isValidMoveBasicForAttack_def rows cols src path Some t2 Option.bind.simps sc ..
  qed
qed

lemma isSquareUnderAttack_same_for_check:
  assumes s: "same_for_check color b1 b2"
  shows "isSquareUnderAttack b1 position (opponent color) = isSquareUnderAttack b2 position (opponent color)"
proof -
  have rows: "board_rows b1 = board_rows b2" and cols: "board_cols b1 = board_cols b2"
    using s by (simp_all add: same_for_check_def)
  have body: "do { sq \<leftarrow> cell b1 (row p) (col p);
                   case sq of
                     None \<Rightarrow> Some False
                   | Some piece \<Rightarrow>
                       if pcolor piece = opponent color
                       then isValidMoveBasicForAttack b1 p position
                       else Some False }
            = do { sq \<leftarrow> cell b2 (row p) (col p);
                   case sq of
                     None \<Rightarrow> Some False
                   | Some piece \<Rightarrow>
                       if pcolor piece = opponent color
                       then isValidMoveBasicForAttack b2 p position
                       else Some False }" for p
  proof (cases "cell b1 (row p) (col p) = cell b2 (row p) (col p)")
    case True
    show ?thesis
      unfolding True attack_same_for_check[OF s True, of position] ..
  next
    case False
    then have "own_piece_swap color (cell b1 (row p) (col p)) (cell b2 (row p) (col p))"
      using s by (auto simp: same_for_check_def)
    then show ?thesis
      by (auto simp: own_piece_swap_def opponent_def)
  qed
  show ?thesis
    unfolding isSquareUnderAttack_def Let_def rows cols body ..
qed

lemma findKingPosition_same_for_check:
  assumes s: "same_for_check color b1 b2"
  shows "findKingPosition b1 color = findKingPosition b2 color"
proof -
  have rows: "board_rows b1 = board_rows b2" and cols: "board_cols b1 = board_cols b2"
    using s by (simp_all add: same_for_check_def)
  have body: "do { sq \<leftarrow> cell b1 (row p) (col p);
                   Some (case sq of None \<Rightarrow> False
                         | Some piece \<Rightarrow> ptype piece = King \<and> pcolor piece = color) }
            = do { sq \<leftarrow> cell b2 (row p) (col p);
                   Some (case sq of None \<Rightarrow> False
                         | Some piece \<Rightarrow> ptype piece = King \<and> pcolor piece = color) }" for p
  proof (cases "cell b1 (row p) (col p) = cell b2 (row p) (col p)")
    case True
    then show ?thesis by simp
  next
    case False
    then have "own_piece_swap color (cell b1 (row p) (col p)) (cell b2 (row p) (col p))"
      using s by (auto simp: same_for_check_def)
    then show ?thesis
      by (auto simp: own_piece_swap_def)
  qed
  show ?thesis
    unfolding findKingPosition_def Let_def rows cols body ..
qed

lemma isKingInCheck_same_for_check:
  assumes s: "same_for_check color b1 b2"
  shows "isKingInCheck b1 color = isKingInCheck b2 color"
  unfolding isKingInCheck_def findKingPosition_same_for_check[OF s]
    isSquareUnderAttack_same_for_check[OF s] ..

section \<open>Legal moves keep the king safe\<close>

lemma getSpecialMoveType_piece:
  assumes "cell board (row from) (col from) = Some (Some piece)"
  shows "getSpecialMoveType board from to enPassantTarget =
     Some (if ptype piece = King \<and> \<bar>col to - col from\<bar> = 2
           then Some (if col to > col from then CastleKingside else CastleQueenside)
           else if ptype piece = Pawn \<and> ep_matches enPassantTarget to then Some EnPassant
           else if ptype piece = Pawn
                  \<and> ((pcolor piece = White \<and> row to = 0)
                     \<or> (pcolor piece = Black \<and> row to = board_rows board - 1))
           then Some Promotion else None)"
  using assms by (simp add: getSpecialMoveType_def Let_def)

lemma promoted_type_not_King [simp]: "promoted_type pp \<noteq> King"
  by (cases pp) (simp_all add: promoted_type_def)

lemma wouldMoveLeaveKingInCheck_SomeE:
  assumes "wouldMoveLeaveKingInCheck board from to playerColor enPassantTarget = Some v"
    and "cell board (row from) (col from) = Some (Some piece)"
  obtains b1 b2 b3 b4 where
    "set_cell board (row to) (col to) (Some piece) = Some b1"
    "set_cell b1 (row from) (col from) None = Some b2"
    "(if ptype piece = Pawn \<and> ep_matches enPassantTarget to then
        set_cell b2 (if pcolor piece = White then row to + 1 else row to - 1) (col to) None
      else Some b2) = Some b3"
    "(if ptype piece = King \<and> \<bar>col to - col from\<bar> = 2 then
        do { rook \<leftarrow> cell b3 (row to) (if col to > col from then 8 else 0);
             nb \<leftarrow> set_cell b3 (row to) (if col to > col from then col to - 1 else col to + 1) rook;
             set_cell nb (row to) (if col to > col from then 8 else 0) None }
      else Some b3) = Some b4"
    "isKingInCheck b4 playerColor = Some v"
  using assms
  unfolding wouldMoveLeaveKingInCheck_def Let_def
  by (simp only: Option.bind.simps option.case bind_eq_Some_conv) blast

lemma executeMove_plain:
  assumes pc: "cell board (row from) (col from) = Some (Some piece)"
    and nc: "\<not> (ptype piece = King \<and> \<bar>col to - col from\<bar> = 2)"
    and nep: "\<not> (ptype piece = Pawn \<and> ep_matches enPassantTarget to)"
    and b1: "set_cell board (row to) (col to) (Some piece) = Some b1"
    and b2: "set_cell b1 (row from) (col from) None = Some b2"
  shows "\<exists>res. executeMove board from to rights enPassantTarget promotionPiece = Some res
           \<and> same_for_check (pcolor piece) b2 (newBoard res)"
proof -
  define promo where "promo = (ptype piece = Pawn
                  \<and> ((pcolor piece = White \<and> row to = 0)
                     \<or> (pcolor piece = Black \<and> row to = board_rows board - 1)))"
  define placed where "placed = (if promo
      then \<lparr>ptype = promoted_type promotionPiece, pcolor = pcolor piece\<rparr> else piece)"
  have sm: "getSpecialMoveType board from to enPassantTarget = Some (if promo then Some Promotion else None)"
    using nc nep by (auto simp add: getSpecialMoveType_piece[OF pc] promo_def)
  have dst: "in_bounds board (row to) (col to)" by (rule set_cell_SomeD[OF b1])
  then obtain target where target: "cell board (row to) (col to) = Some target"
    using cell_in_bounds by blast
  from dst obtain e1 where e1: "set_cell board (row to) (col to) (Some placed) = Some e1"
    using set_cell_in_bounds by blast
  have "in_bounds b1 (row from) (col from)" by (rule set_cell_SomeD[OF b2])
  then have "in_bounds e1 (row from) (col from)"
    by (simp add: set_cell_in_bounds_iff[OF b1] set_cell_in_bounds_iff[OF e1])
  then obtain e2 where e2: "set_cell e1 (row from) (col from) None = Some e2"
    using set_cell_in_bounds by blast
  have ex: "executeMove board from to rights enPassantTarget promotionPiece =
     Some \<lparr>newBoard = e2, captured = target,
           newEnPassantTarget = enPassantTarget_after piece from to,
           newCastlingRights = castlingRights_after (board_rows board) piece target from to rights,
           specialMove = (if promo then Some Promotion else None)\<rparr>"
    using e1 e2 by (cases promo) (simp_all add: executeMove_def pc target sm placed_def)
  have rows: "board_rows b2 = board_rows e2"
    by (simp add: set_cell_rows[OF b1] set_cell_rows[OF b2] set_cell_rows[OF e1] set_cell_rows[OF e2])
  have cols: "board_cols b2 = board_cols e2"
    by (simp add: set_cell_cols[OF b1] set_cell_cols[OF b2] set_cell_cols[OF e1] set_cell_cols[OF e2])
  have cells: "cell b2 r c = cell e2 r c \<or> own_piece_swap (pcolor piece) (cell b2 r c) (cell e2 r c)" for r c
    unfolding set_cell_cell[OF b2] set_cell_cell[OF b1] set_cell_cell[OF e2] set_cell_cell[OF e1]
    by (auto simp: own_piece_swap_def placed_def promo_def)
  show ?thesis
    unfolding ex using rows cols cells by (simp add: same_for_check_def)
qed


lemma executeMove_en_passant:
  assumes pc: "cell board (row from) (col from) = Some (Some piece)"
    and ep: "ptype piece = Pawn \<and> ep_matches enPassantTarget to"
    and b1: "set_cell board (row to) (col to) (Some piece) = Some b1"
    and b2: "set_cell b1 (row from) (col from) None = Some b2"
    and b3: "set_cell b2 (if pcolor piece = White then row to + 1 else row to - 1) (col to) None
             = Some b3"
  shows "\<exists>res. executeMove board from to rights enPassantTarget promotionPiece = Some res
           \<and> same_for_check (pcolor piece) b3 (newBoard res)"
proof -
  define capRow where "capRow = (if pcolor piece = White then row to + 1 else row to - 1)"
  have cr: "capRow \<noteq> row to" by (simp add: capRow_def)
  note b3' = b3[folded capRow_def]
  have sm: "getSpecialMoveType board from to enPassantTarget = Some (Some EnPassant)"
    using ep by (simp add: getSpecialMoveType_piece[OF pc])
  have dst: "in_bounds board (row to) (col to)" by (rule set_cell_SomeD[OF b1])
  then obtain target where target: "cell board (row to) (col to) = Some target"
    using cell_in_bounds by blast
  have "in_bounds b2 capRow (col to)" by (rule set_cell_SomeD[OF b3'])
  then have cap: "in_bounds board capRow (col to)"
    by (simp add: set_cell_in_bounds_iff[OF b1] set_cell_in_bounds_iff[OF b2])
  then obtain cp e1 where cp: "cell board capRow (col to) = Some cp"
    and e1: "set_cell board capRow (col to) None = Some e1"
    using cell_in_bounds set_cell_in_bounds by blast
  from dst have "in_bounds e1 (row to) (col to)" by (simp add: set_cell_in_bounds_iff[OF e1])
  then obtain e2 where e2: "set_cell e1 (row to) (col to) (Some piece) = Some e2"
    using set_cell_in_bounds by blast
  have "in_bounds b1 (row from) (col from)" by (rule set_cell_SomeD[OF b2])
  then have "in_bounds e2 (row from) (col from)"
    by (simp add: set_cell_in_bounds_iff[OF b1] set_cell_in_bounds_iff[OF e1]
        set_cell_in_bounds_iff[OF e2])
  then obtain e3 where e3: "set_cell e2 (row from) (col from) None = Some e3"
    using set_cell_in_bounds by blast
  have ex: "executeMove board from to rights enPassantTarget promotionPiece =
     Some \<lparr>newBoard = e3, captured = cp,
           newEnPassantTarget = enPassantTarget_after piece from to,
           newCastlingRights = castlingRights_after (board_rows board) piece cp from to rights,
           specialMove = Some EnPassant\<rparr>"
    using cp e1 e2 e3 by (simp add: executeMove_def pc target sm capRow_def[symmetric])
  have rows: "board_rows b3 = board_rows e3"
    by (simp add: set_cell_rows[OF b1] set_cell_rows[OF b2] set_cell_rows[OF b3']
        set_cell_rows[OF e1] set_cell_rows[OF e2] set_cell_rows[OF e3])
  have cols: "board_cols b3 = board_cols e3"
    by (simp add: set_cell_cols[OF b1] set_cell_cols[OF b2] set_cell_cols[OF b3']
        set_cell_cols[OF e1] set_cell_cols[OF e2] set_cell_cols[OF e3])
  have cells: "cell b3 r c = cell e3 r c" for r c
    unfolding set_cell_cell[OF b3'] set_cell_cell[OF b2] set_cell_cell[OF b1]
      set_cell_cell[OF e3] set_cell_cell[OF e2] set_cell_cell[OF e1]
    using cr by auto
  show ?thesis
    unfolding ex using rows cols cells by (simp add: same_for_check_def)
qed

lemma valid_castle_geometry:
  assumes valid: "isValidMoveBasic board from to enPassantTarget castlingRights = Some True"
    and pc: "cell board (row from) (col from) = Some (Some piece)"
    and cs: "ptype piece = King \<and> \<bar>col to - col from\<bar> = 2"
  shows "row to = row from \<and> col from = 4"
proof -
  from valid obtain cols piece' target where f:
    "board_cols board = Some cols"
    "\<not> (row to < 0 \<or> row to \<ge> board_rows board \<or> col to < 0 \<or> col to \<ge> cols)"
    "cell board (row from) (col from) = Some (Some piece')"
    "cell board (row to) (col to) = Some target"
    by (rule isValidMoveBasic_TrueD)
  with pc have [simp]: "piece' = piece" by simp
  from valid cs obtain rights where
    r: "row to = row from" and c: "canCastle board from to (pcolor piece) rights = Some True"
    unfolding isValidMoveBasic_piece[OF f] Let_def
    by (auto split: if_splits option.splits)
  have "col from = 4"
    using c canCastle_kingside[of "from" "to" board "pcolor piece" rights]
      canCastle_queenside[of "from" "to" board "pcolor piece" rights]
    by (cases "col from < col to") simp_all
  with r show ?thesis by simp
qed

lemma executeMove_castle:
  assumes pc: "cell board (row from) (col from) = Some (Some piece)"
    and cs: "ptype piece = King \<and> \<bar>col to - col from\<bar> = 2"
    and geo: "row to = row from \<and> col from = 4"
    and b1: "set_cell board (row to) (col to) (Some piece) = Some b1"
    and b2: "set_cell b1 (row from) (col from) None = Some b2"
    and b4: "do { rook \<leftarrow> cell b2 (row to) (if col to > col from then 8 else 0);
                  nb \<leftarrow> set_cell b2 (row to) (if col to > col from then col to - 1 else col to + 1) rook;
                  set_cell nb (row to) (if col to > col from then 8 else 0) None } = Some b4"
  shows "\<exists>res. executeMove board from to rights enPassantTarget promotionPiece = Some res
           \<and> same_for_check (pcolor piece) b4 (newBoard res)"
proof -
  define rf :: int where "rf = (if col to > col from then 8 else 0)"
  define rt where "rt = (if col to > col from then col to - 1 else col to + 1)"
  have cols: "col from = 4" "col to = 6 \<or> col to = 2" "row to = row from"
    using cs geo by auto
  have dist: "rf \<noteq> col to" "rf \<noteq> col from" "rt \<noteq> col to" "rt \<noteq> col from" "rt \<noteq> rf"
    using cols by (auto simp: rf_def rt_def)
  from b4 obtain rook nb where rook: "cell b2 (row to) rf = Some rook"
    and nb: "set_cell b2 (row to) rt rook = Some nb"
    and b4': "set_cell nb (row to) rf None = Some b4"
    by (auto simp: bind_eq_Some_conv rf_def rt_def)
  have rook0: "cell board (row to) rf = Some rook"
    using rook dist unfolding set_cell_cell[OF b2] set_cell_cell[OF b1] by simp
  have sm: "getSpecialMoveType board from to enPassantTarget
            = Some (Some (if col to > col from then CastleKingside else CastleQueenside))"
    using cs by (simp add: getSpecialMoveType_piece[OF pc])
  have dst: "in_bounds board (row to) (col to)" by (rule set_cell_SomeD[OF b1])
  then obtain target where target: "cell board (row to) (col to) = Some target"
    using cell_in_bounds by blast
  have "in_bounds b2 (row to) rt" by (rule set_cell_SomeD[OF nb])
  then have "in_bounds board (row to) rt"
    by (simp add: set_cell_in_bounds_iff[OF b1] set_cell_in_bounds_iff[OF b2])
  then obtain e1 where e1: "set_cell board (row to) rt rook = Some e1"
    using set_cell_in_bounds by blast
  have "in_bounds board (row to) rf" by (rule cell_SomeD[OF rook0])
  then have "in_bounds e1 (row to) rf" by (simp add: set_cell_in_bounds_iff[OF e1])
  then obtain e2 where e2: "set_cell e1 (row to) rf None = Some e2"
    using set_cell_in_bounds by blast
  from dst have "in_bounds e2 (row to) (col to)"
    by (simp add: set_cell_in_bounds_iff[OF e1] set_cell_in_bounds_iff[OF e2])
  then obtain e3 where e3: "set_cell e2 (row to) (col to) (Some piece) = Some e3"
    using set_cell_in_bounds by blast
  have "in_bounds b1 (row from) (col from)" by (rule set_cell_SomeD[OF b2])
  then have "in_bounds e3 (row from) (col from)"
    by (simp add: set_cell_in_bounds_iff[OF b1] set_cell_in_bounds_iff[OF e1]
        set_cell_in_bounds_iff[OF e2] set_cell_in_bounds_iff[OF e3])
  then obtain e4 where e4: "set_cell e3 (row from) (col from) None = Some e4"
    using set_cell_in_bounds by blast
  have ex: "executeMove board from to rights enPassantTarget promotionPiece =
     Some \<lparr>newBoard = e4, captured = target,
           newEnPassantTarget = enPassantTarget_after piece from to,
           newCastlingRights = castlingRights_after (board_rows board) piece target from to rights,
           specialMove = Some (if col to > col from then CastleKingside else CastleQueenside)\<rparr>"
    using rook0 e1 e2 e3 e4
    by (cases "col to > col from") (simp_all add: executeMove_def pc target sm rf_def rt_def)
  have rows: "board_rows b4 = board_rows e4"
    by (simp add: set_cell_rows[OF b1] set_cell_rows[OF b2] set_cell_rows[OF nb]
        set_cell_rows[OF b4'] set_cell_rows[OF e1] set_cell_rows[OF e2] set_cell_rows[OF e3]
        set_cell_rows[OF e4])
  have bcols: "board_cols b4 = board_cols e4"
    by (simp add: set_cell_cols[OF b1] set_cell_cols[OF b2] set_cell_cols[OF nb]
        set_cell_cols[OF b4'] set_cell_cols[OF e1] set_cell_cols[OF e2] set_cell_cols[OF e3]
        set_cell_cols[OF e4])
  have cells: "cell b4 r c = cell e4 r c" for r c
    unfolding set_cell_cell[OF b4'] set_cell_cell[OF nb] set_cell_cell[OF b2] set_cell_cell[OF b1]
      set_cell_cell[OF e4] set_cell_cell[OF e3] set_cell_cell[OF e2] set_cell_cell[OF e1]
    using dist cols(3) by auto
  show ?thesis
    unfolding ex using rows bcols cells by (simp add: same_for_check_def)
qed

lemma executeMove_keeps_check_test:
  assumes valid: "isValidMoveBasic board from to enPassantTarget castlingRights = Some True"
    and pc: "cell board (row from) (col from) = Some (Some piece)"
    and safe: "wouldMoveLeaveKingInCheck board from to (pcolor piece) enPassantTarget = Some v"
  shows "\<exists>res. executeMove board from to rights enPassantTarget promotionPiece = Some res
           \<and> isKingInCheck (newBoard res) (pcolor piece) = Some v"
proof -
  from safe pc obtain b1 b2 b3 b4 where
    b1: "set_cell board (row to) (col to) (Some piece) = Some b1" and
    b2: "set_cell b1 (row from) (col from) None = Some b2" and
    b3: "(if ptype piece = Pawn \<and> ep_matches enPassantTarget to then
            set_cell b2 (if pcolor piece = White then row to + 1 else row to - 1) (col to) None
          else Some b2) = Some b3" and
    b4: "(if ptype piece = King \<and> \<bar>col to - col from\<bar> = 2 then
            do { rook \<leftarrow> cell b3 (row to) (if col to > col from then 8 else 0);
                 nb \<leftarrow> set_cell b3 (row to) (if col to > col from then col to - 1 else col to + 1) rook;
                 set_cell nb (row to) (if col to > col from then 8 else 0) None }
          else Some b3) = Some b4" and
    chk: "isKingInCheck b4 (pcolor piece) = Some v"
    by (rule wouldMoveLeaveKingInCheck_SomeE)
  have "\<exists>res. executeMove board from to rights enPassantTarget promotionPiece = Some res
           \<and> same_for_check (pcolor piece) b4 (newBoard res)"
  proof (cases "ptype piece = King \<and> \<bar>col to - col from\<bar> = 2")
    case True
    then have "b3 = b2" using b3 by (auto split: if_splits)
    with b4 True have
      "do { rook \<leftarrow> cell b2 (row to) (if col to > col from then 8 else 0);
            nb \<leftarrow> set_cell b2 (row to) (if col to > col from then col to - 1 else col to + 1) rook;
            set_cell nb (row to) (if col to > col from then 8 else 0) None } = Some b4"
      by (auto split: if_splits)
    with executeMove_castle[OF pc True valid_castle_geometry[OF valid pc True] b1 b2]
    show ?thesis by blast
  next
    case False
    then have b43: "b4 = b3" using b4 by (auto split: if_splits)
    show ?thesis
    proof (cases "ptype piece = Pawn \<and> ep_matches enPassantTarget to")
      case True
      with b3 have
        "set_cell b2 (if pcolor piece = White then row to + 1 else row to - 1) (col to) None = Some b3"
        by (auto split: if_splits)
      from executeMove_en_passant[OF pc True b1 b2 this] b43 show ?thesis by simp
    next
      case nep: False
      then have "b3 = b2" using b3 by (auto split: if_splits)
      with executeMove_plain[OF pc False nep b1 b2] b43 show ?thesis by simp
    qed
  qed
  then obtain res where
    ex: "executeMove board from to rights enPassantTarget promotionPiece = Some res" and
    s: "same_for_check (pcolor piece) b4 (newBoard res)"
    by blast
  from isKingInCheck_same_for_check[OF s] chk ex show ?thesis by simp
qed

lemma isValidMove_True_iff:
  "isValidMove board from to enPassantTarget castlingRights = Some True \<longleftrightarrow>
     isValidMoveBasic board from to enPassantTarget castlingRights = Some True
     \<and> (\<exists>piece. cell board (row from) (col from) = Some (Some piece)
           \<and> wouldMoveLeaveKingInCheck board from to (pcolor piece) enPassantTarget = Some False)"
proof (cases "cell board (row from) (col from)")
  case None
  then show ?thesis by (simp add: isValidMove_def)
next
  case (Some sq)
  show ?thesis
  proof (cases sq)
    case None
    with Some show ?thesis by (simp add: isValidMove_def)
  next
    case (Some piece)
    with \<open>cell board (row from) (col from) = Some sq\<close>
    have pc: "cell board (row from) (col from) = Some (Some piece)" by simp
    show ?thesis
      by (cases "isValidMoveBasic board from to enPassantTarget castlingRights";
          cases "wouldMoveLeaveKingInCheck board from to (pcolor piece) enPassantTarget")
         (auto simp: isValidMove_def pc)
  qed
qed

text \<open>
  C1. \<open>isValidMove\<close> returns true iff \<open>isValidMoveBasic\<close> returns true and the simulation
  \<open>wouldMoveLeaveKingInCheck\<close> of the move, for the colour of the moved piece, returns false.
  For every move that \<open>isValidMove\<close> accepts, \<open>executeMove\<close> returns a result, whatever the
  castling rights and the promotion choice it is given, and on the board of that result
  \<open>isKingInCheck\<close> is false for the mover's colour.
\<close>

theorem isValidMove_legal_and_safe:
  "(isValidMove board from to enPassantTarget castlingRights = Some True \<longleftrightarrow>
      isValidMoveBasic board from to enPassantTarget castlingRights = Some True
      \<and> (\<exists>piece. cell board (row from) (col from) = Some (Some piece)
            \<and> wouldMoveLeaveKingInCheck board from to (pcolor piece) enPassantTarget = Some False))
   \<and> (isValidMove board from to enPassantTarget castlingRights = Some True \<longrightarrow>
        (\<exists>piece res. cell board (row from) (col from) = Some (Some piece)
            \<and> executeMove board from to rights enPassantTarget promotionPiece = Some res
            \<and> isKingInCheck (newBoard res) (pcolor piece) = Some False))"
proof (intro conjI impI)
  show "isValidMove board from to enPassantTarget castlingRights = Some True \<longleftrightarrow>
      isValidMoveBasic board from to enPassantTarget castlingRights = Some True
      \<and> (\<exists>piece. cell board (row from) (col from) = Some (Some piece)
            \<and> wouldMoveLeaveKingInCheck board from to (pcolor piece) enPassantTarget = Some False)"
    by (rule isValidMove_True_iff)
next
  assume "isValidMove board from to enPassantTarget castlingRights = Some True"
  then obtain piece where
    valid: "isValidMoveBasic board from to enPassantTarget castlingRights = Some True" and
    pc: "cell board (row from) (col from) = Some (Some piece)" and
    safe: "wouldMoveLeaveKingInCheck board from to (pcolor piece) enPassantTarget = Some False"
    unfolding isValidMove_True_iff by blast
  from executeMove_keeps_check_test[OF valid pc safe] pc
  show "\<exists>piece res. cell board (row from) (col from) = Some (Some piece)
            \<and> executeMove board from to rights enPassantTarget promotionPiece = Some res
            \<and> isKingInCheck (newBoard res) (pcolor piece) = Some False"
    by blast
qed

theorem isValidMove_legal_and_safe_witness:
  "isValidMove rook_ending \<lparr>row = 7, col = 4\<rparr> \<lparr>row = 7, col = 6\<rparr> None
      (Some getInitialCastlingRights) = Some True
   \<and> isValidMoveBasic rook_ending \<lparr>row = 7, col = 4\<rparr> \<lparr>row = 7, col = 6\<rparr> None
      (Some getInitialCastlingRights) = Some True
   \<and> map_option (\<lambda>res. isKingInCheck (newBoard res) White)
        (executeMove rook_ending \<lparr>row = 7, col = 4\<rparr> \<lparr>row = 7, col = 6\<rparr>
           getInitialCastlingRights None PromoteQueen) = Some (Some False)"
proof -
  have v: "isValidMove rook_ending \<lparr>row = 7, col = 4\<rparr> \<lparr>row = 7, col = 6\<rparr> None
      (Some getInitialCastlingRights) = Some True"
    by code_simp
  have k: "cell rook_ending 7 4 = Some (Some \<lparr>ptype = King, pcolor = White\<rparr>)"
    by code_simp
  show ?thesis
    using v k isValidMove_legal_and_safe[of rook_ending "\<lparr>row = 7, col = 4\<rparr>"
        "\<lparr>row = 7, col = 6\<rparr>" None "Some getInitialCastlingRights" getInitialCastlingRights
        PromoteQueen]
    by auto
qed

lemma executeMove_legal_total:
  assumes "isValidMove board from to enPassantTarget castlingRights = Some True"
  shows "executeMove board from to rights enPassantTarget promotionPiece \<noteq> None"
proof -
  from assms obtain piece where
    valid: "isValidMoveBasic board from to enPassantTarget castlingRights = Some True" and
    pc: "cell board (row from) (col from) = Some (Some piece)" and
    safe: "wouldMoveLeaveKingInCheck board from to (pcolor piece) enPassantTarget = Some False"
    unfolding isValidMove_True_iff by blast
  from executeMove_keeps_check_test[OF valid pc safe] show ?thesis by auto
qed

section \<open>The en-passant target after a move\<close>

lemma valid_pawn_advance:
  assumes "isValidMoveBasic board from to enPassantTarget castlingRights = Some True"
    and "cell board (row from) (col from) = Some (Some piece)" and "ptype piece = Pawn"
  shows "row to - row from = pawn_direction (pcolor piece)
         \<or> (row to - row from = 2 * pawn_direction (pcolor piece) \<and> col to = col from)"
proof -
  from assms(1) obtain cols piece' target where f:
    "board_cols board = Some cols"
    "\<not> (row to < 0 \<or> row to \<ge> board_rows board \<or> col to < 0 \<or> col to \<ge> cols)"
    "cell board (row from) (col from) = Some (Some piece')"
    "cell board (row to) (col to) = Some target"
    by (rule isValidMoveBasic_TrueD)
  with assms(2) have [simp]: "piece' = piece" by simp
  show ?thesis
    using assms(1,3) unfolding isValidMoveBasic_piece[OF f] Let_def
    by (auto simp: pawn_direction_def bind_eq_Some_conv split: if_splits)
qed

lemma executeMove_target:
  assumes "executeMove board from to castlingRights enPassantTarget promotionPiece = Some res"
    and "cell board (row from) (col from) = Some (Some piece)"
  shows "newEnPassantTarget res =
           (if moves_two_rows piece from to then Some (square_behind piece to) else None)"
  unfolding executeMove_fields(1)[OF assms]
  by (simp add: enPassantTarget_after_def moves_two_rows_def square_behind_def
      pawn_direction_def)

text \<open>
  C7. For every move that \<open>isValidMove\<close> accepts, \<open>executeMove\<close> returns, and the en-passant
  target it returns is set iff the moved piece is a pawn that advances exactly two rows;
  the target is then the square the pawn skipped, which is the square immediately behind
  the destination on the mover's side. After any other accepted move the returned
  target is absent, whatever the incoming target was.
\<close>

theorem executeMove_en_passant_target:
  assumes "isValidMove board from to enPassantTarget rights = Some True"
  shows "\<exists>piece res.
           cell board (row from) (col from) = Some (Some piece)
           \<and> executeMove board from to castlingRights enPassantTarget promotionPiece = Some res
           \<and> newEnPassantTarget res =
               (if advances_two_rows piece from to then Some (skipped_square from to) else None)
           \<and> (advances_two_rows piece from to \<longrightarrow>
                skipped_square from to = square_behind piece to)"
proof -
  from assms obtain piece where
    valid: "isValidMoveBasic board from to enPassantTarget rights = Some True" and
    pc: "cell board (row from) (col from) = Some (Some piece)"
    unfolding isValidMove_True_iff by blast
  from executeMove_legal_total[OF assms] obtain res where
    ex: "executeMove board from to castlingRights enPassantTarget promotionPiece = Some res"
    by blast
  have two: "moves_two_rows piece from to = advances_two_rows piece from to"
  proof (cases "ptype piece = Pawn")
    case True
    from valid_pawn_advance[OF valid pc True] show ?thesis
      by (auto simp: moves_two_rows_def advances_two_rows_def pawn_direction_def
          split: if_splits)
  next
    case False
    then show ?thesis by (simp add: moves_two_rows_def advances_two_rows_def)
  qed
  have sq: "skipped_square from to = square_behind piece to"
    if adv: "advances_two_rows piece from to"
  proof -
    from adv have pawn: "ptype piece = Pawn"
      and rows: "row to - row from = 2 * pawn_direction (pcolor piece)"
      by (simp_all add: advances_two_rows_def)
    from valid_pawn_advance[OF valid pc pawn] rows have "col to = col from"
      by (auto simp: pawn_direction_def split: if_splits)
    with rows show ?thesis
      by (auto simp: skipped_square_def square_behind_def pawn_direction_def split: if_splits)
  qed
  have "newEnPassantTarget res =
          (if advances_two_rows piece from to then Some (skipped_square from to) else None)"
    unfolding executeMove_target[OF ex pc] two using sq by simp
  with pc ex sq show ?thesis by blast
qed

theorem executeMove_en_passant_target_witness:
  "isValidMove (createInitialBoard Size9x8) \<lparr>row = 6, col = 4\<rparr> \<lparr>row = 4, col = 4\<rparr>
      None (Some getInitialCastlingRights) = Some True
   \<and> map_option newEnPassantTarget
        (executeMove (createInitialBoard Size9x8) \<lparr>row = 6, col = 4\<rparr> \<lparr>row = 4, col = 4\<rparr>
           getInitialCastlingRights None PromoteQueen)
      = Some (Some \<lparr>row = 5, col = 4\<rparr>)"
proof -
  have v: "isValidMove (createInitialBoard Size9x8) \<lparr>row = 6, col = 4\<rparr> \<lparr>row = 4, col = 4\<rparr>
      None (Some getInitialCastlingRights) = Some True"
    by code_simp
  have pc: "cell (createInitialBoard Size9x8) 6 4 = Some (Some \<lparr>ptype = Pawn, pcolor = White\<rparr>)"
    by code_simp
  have adv: "advances_two_rows \<lparr>ptype = Pawn, pcolor = White\<rparr> \<lparr>row = 6, col = 4\<rparr> \<lparr>row = 4, col = 4\<rparr>"
    by (simp add: advances_two_rows_def pawn_direction_def)
  from executeMove_en_passant_target[OF v, of getInitialCastlingRights PromoteQueen]
  obtain res where
    r: "executeMove (createInitialBoard Size9x8) \<lparr>row = 6, col = 4\<rparr> \<lparr>row = 4, col = 4\<rparr>
           getInitialCastlingRights None PromoteQueen = Some res"
    and t: "newEnPassantTarget res =
       (if advances_two_rows \<lparr>ptype = Pawn, pcolor = White\<rparr> \<lparr>row = 6, col = 4\<rparr> \<lparr>row = 4, col = 4\<rparr>
        then Some (skipped_square \<lparr>row = 6, col = 4\<rparr> \<lparr>row = 4, col = 4\<rparr>) else None)"
    by (auto simp: pc)
  show ?thesis
    unfolding r using v t adv by (simp add: skipped_square_def)
qed

section \<open>Castling rights after a move\<close>







section \<open>Move generation and game status return a value\<close>

lemma for_append_member:
  "for_append f xs = Some ys \<Longrightarrow> y \<in> set ys \<Longrightarrow> \<exists>x \<in> set xs. \<exists>zs. f x = Some zs \<and> y \<in> set zs"
  by (induction xs arbitrary: ys) (auto simp: bind_eq_Some_conv)

lemma getPiecesOfColor_total:
  assumes rect: "rectangular board cols"
  shows "getPiecesOfColor board color \<noteq> None"
proof -
  have "for_append (\<lambda>p. do { sq \<leftarrow> cell board (row p) (col p);
                               Some (case sq of None \<Rightarrow> []
                                     | Some piece \<Rightarrow> if pcolor piece = color then [(piece, p)] else []) })
            (scan_squares (board_rows board) cols) \<noteq> None"
  proof (rule for_append_total)
    fix p assume "p \<in> set (scan_squares (board_rows board) cols)"
    then have "in_bounds board (row p) (col p)" by (rule scan_squares_in_bounds[OF rect])
    then obtain sq where "cell board (row p) (col p) = Some sq" using cell_in_bounds by blast
    then show "do { sq \<leftarrow> cell board (row p) (col p);
                    Some (case sq of None \<Rightarrow> []
                          | Some piece \<Rightarrow> if pcolor piece = color then [(piece, p)] else []) } \<noteq> None"
      by simp
  qed
  then show ?thesis by (simp add: getPiecesOfColor_def rectangular_cols[OF rect])
qed

lemma getPiecesOfColor_in_bounds:
  assumes "getPiecesOfColor board color = Some pieces" and "(piece, p) \<in> set pieces"
  shows "cell board (row p) (col p) = Some (Some piece) \<and> pcolor piece = color"
proof -
  from assms(1) obtain cols where
    fa: "for_append (\<lambda>p. do { sq \<leftarrow> cell board (row p) (col p);
                               Some (case sq of None \<Rightarrow> []
                                     | Some piece \<Rightarrow> if pcolor piece = color then [(piece, p)] else []) })
            (scan_squares (board_rows board) cols) = Some pieces"
    by (auto simp: getPiecesOfColor_def bind_eq_Some_conv)
  from for_append_member[OF fa assms(2)] show ?thesis
    by (auto simp: bind_eq_Some_conv split: option.splits if_splits)
qed

lemma getValidMoves_total:
  assumes rect: "rectangular board cols" and cols: "9 \<le> cols"
    and src: "in_bounds board (row from) (col from)"
  shows "getValidMoves board from enPassantTarget castlingRights \<noteq> None"
proof -
  have "for_collect (\<lambda>to. isValidMove board from to enPassantTarget castlingRights)
            (scan_squares (board_rows board) cols) \<noteq> None"
    by (rule for_collect_total) (rule isValidMove_total[OF rect cols src])
  then show ?thesis by (simp add: getValidMoves_def rectangular_cols[OF rect])
qed

lemma getAllLegalMoves_total:
  assumes rect: "rectangular board cols" and cols: "9 \<le> cols"
  shows "getAllLegalMoves board color enPassantTarget castlingRights \<noteq> None"
proof -
  from getPiecesOfColor_total[OF rect] obtain pieces where
    ps: "getPiecesOfColor board color = Some pieces" by blast
  have "for_append (\<lambda>(piece, position). do {
                        validMoves \<leftarrow> getValidMoves board position enPassantTarget castlingRights;
                        Some (map (\<lambda>to. (position, to, piece)) validMoves) })
            pieces \<noteq> None"
  proof (rule for_append_total)
    fix x assume x: "x \<in> set pieces"
    obtain piece position where xp: "x = (piece, position)" by (cases x)
    with x getPiecesOfColor_in_bounds[OF ps] have "in_bounds board (row position) (col position)"
      using cell_SomeD by blast
    from getValidMoves_total[OF rect cols this, of enPassantTarget castlingRights]
    show "(case x of (piece, position) \<Rightarrow> do {
                        validMoves \<leftarrow> getValidMoves board position enPassantTarget castlingRights;
                        Some (map (\<lambda>to. (position, to, piece)) validMoves) }) \<noteq> None"
      by (auto simp: xp bind_eq_None_conv)
  qed
  then show ?thesis by (simp add: getAllLegalMoves_def ps)
qed

lemma isStalemate_total:
  assumes rect: "rectangular board cols" and cols: "9 \<le> cols"
  shows "isStalemate board color enPassantTarget castlingRights \<noteq> None"
  using isKingInCheck_total[OF rect, of color]
    getAllLegalMoves_total[OF rect cols, of color enPassantTarget castlingRights]
  by (auto simp: isStalemate_def)

lemma isCheckmate_total:
  assumes rect: "rectangular board cols" and cols: "9 \<le> cols"
  shows "isCheckmate board color enPassantTarget castlingRights \<noteq> None"
  using isKingInCheck_total[OF rect, of color]
    getAllLegalMoves_total[OF rect cols, of color enPassantTarget castlingRights]
  by (auto simp: isCheckmate_def)

lemma scan_total:
  assumes rect: "rectangular board cols"
  shows "for_append (\<lambda>p. do { sq \<leftarrow> cell board (row p) (col p); Some (g p sq) })
            (scan_squares (board_rows board) cols) \<noteq> None"
proof (rule for_append_total)
  fix p assume "p \<in> set (scan_squares (board_rows board) cols)"
  then have "in_bounds board (row p) (col p)" by (rule scan_squares_in_bounds[OF rect])
  then obtain sq where "cell board (row p) (col p) = Some sq" using cell_in_bounds by blast
  then show "do { sq \<leftarrow> cell board (row p) (col p); Some (g p sq) } \<noteq> None" by simp
qed

lemma getBoardPositionHash_total:
  assumes rect: "rectangular board cols"
  shows "getBoardPositionHash board currentPlayer castlingRights enPassantTarget \<noteq> None"
  using scan_total[OF rect, of "\<lambda>p sq. case sq of None \<Rightarrow> []
                            | Some piece \<Rightarrow>
                                take 1 (color_name (pcolor piece)) @ take 1 (type_name (ptype piece))
                                @ string_of_int (row p) @ string_of_int (col p)"]
  by (auto simp: getBoardPositionHash_def rectangular_cols[OF rect] rectangular_rows[OF rect])

lemma isInsufficientMaterial_total:
  assumes rect: "rectangular board cols"
  shows "isInsufficientMaterial board \<noteq> None"
  using scan_total[OF rect, of "\<lambda>p sq. case sq of None \<Rightarrow> []
                            | Some piece \<Rightarrow> [(ptype piece, pcolor piece, p)]"]
  by (auto simp: isInsufficientMaterial_def rectangular_cols[OF rect] rectangular_rows[OF rect]
      Let_def)

section \<open>Draw detection\<close>

text \<open>
  C4. The signature is a function of the board, the side to move, the castling rights and
  the en-passant target, but it does not separate every two states: \<^verbatim>\<open>piece.type[0]\<close> is
  the letter k for a king and for a knight. The two positions below differ in the
  squares of the white king and the white knight and have the same signature.
\<close>

theorem getBoardPositionHash_collision:
  "knight_on_b \<noteq> king_on_b
   \<and> cell knight_on_b 7 1 = Some (Some \<lparr>ptype = Knight, pcolor = White\<rparr>)
   \<and> cell king_on_b 7 1 = Some (Some \<lparr>ptype = King, pcolor = White\<rparr>)
   \<and> getBoardPositionHash knight_on_b Black getInitialCastlingRights None = Some ''bk04wk71wk74bKQkq''
   \<and> getBoardPositionHash king_on_b Black getInitialCastlingRights None = Some ''bk04wk71wk74bKQkq''"
  by code_simp

text \<open>
  C3. With exactly four pieces the engine only counts the bishops: two bishops on squares
  of the same parity make the material insufficient whatever the two other pieces are.
  Here they are a white king and a white rook.
\<close>

theorem isInsufficientMaterial_four_pieces:
  "isInsufficientMaterial rook_and_bishops = Some True
   \<and> cell rook_and_bishops 7 8 = Some (Some \<lparr>ptype = Rook, pcolor = White\<rparr>)"
  by code_simp


lemma isThreefoldRepetition_count:
  "isThreefoldRepetition positionHistory currentPosition
   \<longleftrightarrow> 2 \<le> count_list positionHistory currentPosition"
proof -
  have "length (filter (\<lambda>pos. pos = currentPosition) positionHistory)
        = count_list positionHistory currentPosition"
    by (induction positionHistory) simp_all
  then show ?thesis by (simp add: isThreefoldRepetition_def Let_def)
qed

lemma wf_board_rook_ending: "wf_board rook_ending"
  unfolding wf_board_def
  by (rule exI[of _ 9])
     (auto simp: rectangular_def rook_ending_def put_def empty_board_def
        dest!: set_update_subset_insert[THEN subsetD])

text \<open>
  C5. On a well-formed board \<open>getDrawStatus\<close> returns a status, and the status is that of
  the first condition that holds in the order stalemate, threefold repetition (the
  signature of the position occurs at least twice in the history), fifty-move rule (the
  half-move clock is at least 100), insufficient material; it is a draw with that single
  reason, and no draw with no reason when none of the four holds.
\<close>

theorem getDrawStatus_first_reason:
  assumes "wf_board board"
  shows "\<exists>stalemate signature insufficient.
     isStalemate board currentPlayer enPassantTarget (Some castlingRights) = Some stalemate
   \<and> getBoardPositionHash board currentPlayer castlingRights enPassantTarget = Some signature
   \<and> isInsufficientMaterial board = Some insufficient
   \<and> getDrawStatus board currentPlayer enPassantTarget castlingRights positionHistory halfMoveClock =
       Some (if stalemate then \<lparr>isDraw = True, reason = Some Stalemate\<rparr>
             else if 2 \<le> count_list positionHistory signature
             then \<lparr>isDraw = True, reason = Some Threefold\<rparr>
             else if 100 \<le> halfMoveClock then \<lparr>isDraw = True, reason = Some FiftyMove\<rparr>
             else if insufficient then \<lparr>isDraw = True, reason = Some Insufficient\<rparr>
             else \<lparr>isDraw = False, reason = None\<rparr>)"
proof -
  from assms obtain cols where rect: "rectangular board cols" and cols: "9 \<le> cols"
    by (auto simp: wf_board_def)
  obtain stalemate where
    s: "isStalemate board currentPlayer enPassantTarget (Some castlingRights) = Some stalemate"
    using isStalemate_total[OF rect cols] by blast
  obtain signature where
    h: "getBoardPositionHash board currentPlayer castlingRights enPassantTarget = Some signature"
    using getBoardPositionHash_total[OF rect] by blast
  obtain insufficient where i: "isInsufficientMaterial board = Some insufficient"
    using isInsufficientMaterial_total[OF rect] by blast
  have "getDrawStatus board currentPlayer enPassantTarget castlingRights positionHistory halfMoveClock =
       Some (if stalemate then \<lparr>isDraw = True, reason = Some Stalemate\<rparr>
             else if 2 \<le> count_list positionHistory signature
             then \<lparr>isDraw = True, reason = Some Threefold\<rparr>
             else if 100 \<le> halfMoveClock then \<lparr>isDraw = True, reason = Some FiftyMove\<rparr>
             else if insufficient then \<lparr>isDraw = True, reason = Some Insufficient\<rparr>
             else \<lparr>isDraw = False, reason = None\<rparr>)"
    by (simp add: getDrawStatus_def s h i isThreefoldRepetition_count isFiftyMoveRule_def)
  with s h i show ?thesis by blast
qed

theorem getDrawStatus_first_reason_witness:
  "wf_board rook_ending
   \<and> getBoardPositionHash rook_ending White getInitialCastlingRights None = Some ''bk04wk74wr78wKQkq''
   \<and> getDrawStatus rook_ending White None getInitialCastlingRights
        [''bk04wk74wr78wKQkq'', ''bk04wk74wr78bKQkq'', ''bk04wk74wr78wKQkq''] 100
      = Some \<lparr>isDraw = True, reason = Some Threefold\<rparr>"
proof -
  have h: "getBoardPositionHash rook_ending White getInitialCastlingRights None
           = Some ''bk04wk74wr78wKQkq''"
    by code_simp
  have s: "isStalemate rook_ending White None (Some getInitialCastlingRights) = Some False"
    by code_simp
  from getDrawStatus_first_reason[OF wf_board_rook_ending, of White None getInitialCastlingRights
      "[''bk04wk74wr78wKQkq'', ''bk04wk74wr78bKQkq'', ''bk04wk74wr78wKQkq'']" 100]
  show ?thesis
    using h s wf_board_rook_ending by auto
qed

section \<open>Alpha-beta search against brute force\<close>

lemma agrees_in_window_refl: "agrees_in_window alpha beta v v"
  by (simp add: agrees_in_window_def)

lemma NegInfinity_least [simp]: "NegInfinity \<le> (x::Score)"
  by (simp add: less_eq_Score_def)

lemma Infinity_greatest [simp]: "(x::Score) \<le> Infinity"
  by (cases x) (simp_all add: less_eq_Score_def)

lemma agrees_full_window:
  assumes "agrees_in_window NegInfinity Infinity v r"
  shows "r = v"
proof -
  have "r \<le> NegInfinity \<or> (NegInfinity < r \<and> r < Infinity) \<or> Infinity \<le> r"
    by (metis Infinity_greatest NegInfinity_least order_le_less)
  then show ?thesis
    using assms unfolding agrees_in_window_def
    by (metis Infinity_greatest NegInfinity_least order_antisym order_trans)
qed

text \<open>The loop of the maximizing side, against the maximum of the exact values.\<close>

lemma max_loop_agrees:
  assumes child: "\<forall>move \<in> set moves. \<forall>result v a b. a < b \<longrightarrow>
        executeMove board (fst move) (fst (snd move)) castlingRights enPassantTarget PromoteQueen
          = Some result \<longrightarrow>
        brute_minimax ev depth1 (newBoard result) False (newEnPassantTarget result)
          (newCastlingRights result) = Some v \<longrightarrow>
        (\<exists>r. minimax ev (newBoard result) depth1 a b False (newEnPassantTarget result)
               (newCastlingRights result) = Some r \<and> agrees_in_window a b v r)"
    and vs: "for_values (\<lambda>move. do {
                   result \<leftarrow> executeMove board (fst move) (fst (snd move)) castlingRights
                               enPassantTarget PromoteQueen;
                   brute_minimax ev depth1 (newBoard result) False
                     (newEnPassantTarget result) (newCastlingRights result) }) moves = Some values"
    and win: "alpha < beta" and acc: "maxEval \<le> alpha"
  shows "\<exists>r. minimax_max_loop ev board depth1 enPassantTarget castlingRights moves maxEval alpha beta
               = Some r
             \<and> maxEval \<le> r
             \<and> (r \<le> alpha \<longrightarrow> maximum values \<le> r)
             \<and> (alpha < r \<and> r < beta \<longrightarrow> maximum values = r)
             \<and> (beta \<le> r \<longrightarrow> r \<le> maximum values)"
  using child vs win acc
proof (induction moves arbitrary: "values" maxEval alpha)
  case Nil
  then show ?case by (auto simp add: minimax_max_loop.simps)
next
  case (Cons move moves)
  from Cons.prems(2) obtain result v rest where
    ex: "executeMove board (fst move) (fst (snd move)) castlingRights enPassantTarget PromoteQueen
           = Some result" and
    bv: "brute_minimax ev depth1 (newBoard result) False (newEnPassantTarget result)
           (newCastlingRights result) = Some v" and
    rest: "for_values (\<lambda>move. do {
                   result \<leftarrow> executeMove board (fst move) (fst (snd move)) castlingRights
                               enPassantTarget PromoteQueen;
                   brute_minimax ev depth1 (newBoard result) False
                     (newEnPassantTarget result) (newCastlingRights result) }) moves = Some rest" and
    vals: "values = v # rest"
    by (auto simp: bind_eq_Some_conv)
  from Cons.prems(1) Cons.prems(3) ex bv obtain e where
    e: "minimax ev (newBoard result) depth1 alpha beta False (newEnPassantTarget result)
          (newCastlingRights result) = Some e" and
    ag: "agrees_in_window alpha beta v e"
    by (meson list.set_intros(1))
  have child': "\<forall>move \<in> set moves. \<forall>result v a b. a < b \<longrightarrow>
        executeMove board (fst move) (fst (snd move)) castlingRights enPassantTarget PromoteQueen
          = Some result \<longrightarrow>
        brute_minimax ev depth1 (newBoard result) False (newEnPassantTarget result)
          (newCastlingRights result) = Some v \<longrightarrow>
        (\<exists>r. minimax ev (newBoard result) depth1 a b False (newEnPassantTarget result)
               (newCastlingRights result) = Some r \<and> agrees_in_window a b v r)"
    using Cons.prems(1) by simp
  show ?case
  proof (cases "beta \<le> max alpha e")
    case True
    with Cons.prems(3) have be: "beta \<le> e" by (auto simp: max_def split: if_splits)
    with Cons.prems(3,4) have me: "max maxEval e = e" by (auto simp: max_def)
    have "minimax_max_loop ev board depth1 enPassantTarget castlingRights (move # moves) maxEval
            alpha beta = Some e"
      using True by (subst minimax_max_loop.simps) (simp add: ex e me)
    moreover have "e \<le> maximum values"
      using ag be by (auto simp: agrees_in_window_def vals max_def)
    moreover have "maxEval \<le> e" using me by (metis max.cobounded1)
    moreover have "\<not> e \<le> alpha" "\<not> e < beta" using be Cons.prems(3) by auto
    ultimately show ?thesis
      by (intro exI[of _ e] conjI impI) simp_all
  next
    case False
    then have win': "max alpha e < beta" by (simp only: not_le)
    have acc': "max maxEval e \<le> max alpha e"
      using Cons.prems(4) by (auto simp: max_def)
    from Cons.IH[OF child' rest win' acc'] obtain r where
      r: "minimax_max_loop ev board depth1 enPassantTarget castlingRights moves (max maxEval e)
            (max alpha e) beta = Some r" and
      lo: "max maxEval e \<le> r" and
      c1: "r \<le> max alpha e \<longrightarrow> maximum rest \<le> r" and
      c2: "max alpha e < r \<and> r < beta \<longrightarrow> maximum rest = r" and
      c3: "beta \<le> r \<longrightarrow> r \<le> maximum rest"
      by blast
    have run: "minimax_max_loop ev board depth1 enPassantTarget castlingRights (move # moves) maxEval
            alpha beta = Some r"
      using False by (subst minimax_max_loop.simps) (simp add: ex e r)
    have m: "maxEval \<le> r" "e \<le> r" using lo by simp_all
    have g1: "r \<le> alpha \<longrightarrow> maximum values \<le> r"
    proof
      assume ra: "r \<le> alpha"
      then have "e \<le> alpha" using m by simp
      then have "v \<le> e" using ag by (simp add: agrees_in_window_def)
      moreover have "maximum rest \<le> r" using c1 ra by (simp add: max.coboundedI1)
      ultimately show "maximum values \<le> r" using m by (simp add: vals)
    qed
    have g2: "alpha < r \<and> r < beta \<longrightarrow> maximum values = r"
    proof
      assume w: "alpha < r \<and> r < beta"
      have ve: "v \<le> r"
      proof (cases "e \<le> alpha")
        case True
        then have "v \<le> e" using ag by (simp add: agrees_in_window_def)
        then show ?thesis using m by simp
      next
        case False
        moreover have "e < beta" using m(2) w by (blast intro: order_le_less_trans)
        ultimately have "v = e" using ag by (simp add: agrees_in_window_def)
        then show ?thesis using m by simp
      qed
      show "maximum values = r"
      proof (cases "r \<le> max alpha e")
        case True
        then have re: "r = e" using w m by (auto simp: max_def split: if_splits)
        then have "v = e" using ag w by (simp add: agrees_in_window_def)
        moreover have "maximum rest \<le> r" using c1 True by simp
        ultimately show ?thesis using re by (simp add: vals max_def)
      next
        case False
        then have "max alpha e < r" by (simp only: not_le)
        then have "maximum rest = r" using c2 w by blast
        then show ?thesis using ve by (simp add: vals max_def)
      qed
    qed
    have g3: "beta \<le> r \<longrightarrow> r \<le> maximum values"
      using c3 by (auto simp: vals max_def)
    show ?thesis
      by (intro exI[of _ r] conjI run m g1 g2 g3)
  qed
qed


text \<open>The loop of the minimizing side, against the minimum of the exact values.\<close>

lemma min_loop_agrees:
  assumes child: "\<forall>move \<in> set moves. \<forall>result v a b. a < b \<longrightarrow>
        executeMove board (fst move) (fst (snd move)) castlingRights enPassantTarget PromoteQueen
          = Some result \<longrightarrow>
        brute_minimax ev depth1 (newBoard result) True (newEnPassantTarget result)
          (newCastlingRights result) = Some v \<longrightarrow>
        (\<exists>r. minimax ev (newBoard result) depth1 a b True (newEnPassantTarget result)
               (newCastlingRights result) = Some r \<and> agrees_in_window a b v r)"
    and vs: "for_values (\<lambda>move. do {
                   result \<leftarrow> executeMove board (fst move) (fst (snd move)) castlingRights
                               enPassantTarget PromoteQueen;
                   brute_minimax ev depth1 (newBoard result) True
                     (newEnPassantTarget result) (newCastlingRights result) }) moves = Some values"
    and win: "alpha < beta" and acc: "beta \<le> minEval"
  shows "\<exists>r. minimax_min_loop ev board depth1 enPassantTarget castlingRights moves minEval alpha beta
               = Some r
             \<and> r \<le> minEval
             \<and> (r \<le> alpha \<longrightarrow> minimum values \<le> r)
             \<and> (alpha < r \<and> r < beta \<longrightarrow> minimum values = r)
             \<and> (beta \<le> r \<longrightarrow> r \<le> minimum values)"
  using child vs win acc
proof (induction moves arbitrary: "values" minEval beta)
  case Nil
  then have "\<not> minEval \<le> alpha" "\<not> minEval < beta" by auto
  with Nil show ?case by (auto simp add: minimax_min_loop.simps)
next
  case (Cons move moves)
  from Cons.prems(2) obtain result v rest where
    ex: "executeMove board (fst move) (fst (snd move)) castlingRights enPassantTarget PromoteQueen
           = Some result" and
    bv: "brute_minimax ev depth1 (newBoard result) True (newEnPassantTarget result)
           (newCastlingRights result) = Some v" and
    rest: "for_values (\<lambda>move. do {
                   result \<leftarrow> executeMove board (fst move) (fst (snd move)) castlingRights
                               enPassantTarget PromoteQueen;
                   brute_minimax ev depth1 (newBoard result) True
                     (newEnPassantTarget result) (newCastlingRights result) }) moves = Some rest" and
    vals: "values = v # rest"
    by (auto simp: bind_eq_Some_conv)
  from Cons.prems(1) Cons.prems(3) ex bv obtain e where
    e: "minimax ev (newBoard result) depth1 alpha beta True (newEnPassantTarget result)
          (newCastlingRights result) = Some e" and
    ag: "agrees_in_window alpha beta v e"
    by (meson list.set_intros(1))
  have child': "\<forall>move \<in> set moves. \<forall>result v a b. a < b \<longrightarrow>
        executeMove board (fst move) (fst (snd move)) castlingRights enPassantTarget PromoteQueen
          = Some result \<longrightarrow>
        brute_minimax ev depth1 (newBoard result) True (newEnPassantTarget result)
          (newCastlingRights result) = Some v \<longrightarrow>
        (\<exists>r. minimax ev (newBoard result) depth1 a b True (newEnPassantTarget result)
               (newCastlingRights result) = Some r \<and> agrees_in_window a b v r)"
    using Cons.prems(1) by simp
  show ?case
  proof (cases "min beta e \<le> alpha")
    case True
    with Cons.prems(3) have ea: "e \<le> alpha" by (auto simp: min_def split: if_splits)
    with Cons.prems(3,4) have me: "min minEval e = e" by (auto simp: min_def)
    have "minimax_min_loop ev board depth1 enPassantTarget castlingRights (move # moves) minEval
            alpha beta = Some e"
      using True by (subst minimax_min_loop.simps) (simp add: ex e me)
    moreover have "minimum values \<le> e"
      using ag ea by (auto simp: agrees_in_window_def vals min_def)
    moreover have "e \<le> minEval" using me by (metis min.cobounded1)
    moreover have "\<not> alpha < e" "\<not> beta \<le> e" using ea Cons.prems(3) by auto
    ultimately show ?thesis
      by (intro exI[of _ e] conjI impI) simp_all
  next
    case False
    then have win': "alpha < min beta e" by (simp only: not_le)
    have acc': "min beta e \<le> min minEval e"
      using Cons.prems(4) by (auto simp: min_def)
    from Cons.IH[OF child' rest win' acc'] obtain r where
      r: "minimax_min_loop ev board depth1 enPassantTarget castlingRights moves (min minEval e)
            alpha (min beta e) = Some r" and
      hi: "r \<le> min minEval e" and
      c1: "r \<le> alpha \<longrightarrow> minimum rest \<le> r" and
      c2: "alpha < r \<and> r < min beta e \<longrightarrow> minimum rest = r" and
      c3: "min beta e \<le> r \<longrightarrow> r \<le> minimum rest"
      by blast
    have run: "minimax_min_loop ev board depth1 enPassantTarget castlingRights (move # moves) minEval
            alpha beta = Some r"
      using False by (subst minimax_min_loop.simps) (simp add: ex e r)
    have m: "r \<le> minEval" "r \<le> e" using hi by simp_all
    have g1: "r \<le> alpha \<longrightarrow> minimum values \<le> r"
      using c1 by (auto simp: vals min_def)
    have g2: "alpha < r \<and> r < beta \<longrightarrow> minimum values = r"
    proof
      assume w: "alpha < r \<and> r < beta"
      have ae: "alpha < e" using m(2) w by (blast intro: order_less_le_trans)
      have rv: "r \<le> v"
      proof (cases "beta \<le> e")
        case True
        then have "e \<le> v" using ag by (simp add: agrees_in_window_def)
        then show ?thesis using m by simp
      next
        case False
        then have "e < beta" by (simp only: not_le)
        with ae have "v = e" using ag by (simp add: agrees_in_window_def)
        then show ?thesis using m by simp
      qed
      show "minimum values = r"
      proof (cases "min beta e \<le> r")
        case True
        then have re: "r = e" using w m by (auto simp: min_def split: if_splits)
        then have "v = e" using ag w by (simp add: agrees_in_window_def)
        moreover have "r \<le> minimum rest" using c3 True by simp
        ultimately show ?thesis using re by (simp add: vals min_def)
      next
        case False
        then have "r < min beta e" by (simp only: not_le)
        then have "minimum rest = r" using c2 w by blast
        then show ?thesis using rv by (simp add: vals min_def)
      qed
    qed
    have g3: "beta \<le> r \<longrightarrow> r \<le> minimum values"
    proof
      assume br: "beta \<le> r"
      then have "min beta e \<le> r" by (simp add: min.coboundedI1)
      then have "r \<le> minimum rest" using c3 by simp
      moreover have "beta \<le> e" using br m(2) by simp
      then have "e \<le> v" using ag by (simp add: agrees_in_window_def)
      then have "r \<le> v" using m(2) by simp
      ultimately show "r \<le> minimum values" by (simp add: vals)
    qed
    show ?thesis
      by (intro exI[of _ r] conjI run m g1 g2 g3)
  qed
qed


lemma minimax_agrees:
  assumes "alpha < beta"
    and "brute_minimax ev depth board isMaximizing enPassantTarget castlingRights = Some v"
  shows "\<exists>r. minimax ev board depth alpha beta isMaximizing enPassantTarget castlingRights = Some r
             \<and> agrees_in_window alpha beta v r"
  using assms
proof (induction depth arbitrary: board alpha beta isMaximizing enPassantTarget castlingRights v)
  case 0
  then show ?case
    by (subst minimax.simps) (simp add: agrees_in_window_refl)
next
  case (Suc depth1)
  define color where "color = (if isMaximizing then Black else White)"
  from Suc.prems(2) obtain mate where
    mate: "isCheckmate board color enPassantTarget (Some castlingRights) = Some mate"
    by (auto simp: bind_eq_Some_conv color_def Let_def)
  show ?case
  proof (cases mate)
    case True
    with Suc.prems(2) mate
    have "v = (if isMaximizing then Finite (- 10000) else Finite 10000)"
      by (simp add: color_def[symmetric])
    moreover have "minimax ev board (Suc depth1) alpha beta isMaximizing enPassantTarget castlingRights
          = Some (if isMaximizing then Finite (- 10000) else Finite 10000)"
      using True mate by (subst minimax.simps) (simp add: color_def[symmetric])
    ultimately show ?thesis by (simp add: agrees_in_window_refl)
  next
    case False
    note nomate = this
    from Suc.prems(2) mate nomate obtain moves where
      moves: "getAllMoves board color enPassantTarget (Some castlingRights) = Some moves"
      by (auto simp: bind_eq_Some_conv color_def[symmetric])
    show ?thesis
    proof (cases "length moves = 0")
      case True
      with Suc.prems(2) mate nomate moves have "v = Finite 0"
        by (simp add: color_def[symmetric])
      moreover have "minimax ev board (Suc depth1) alpha beta isMaximizing enPassantTarget
          castlingRights = Some (Finite 0)"
        using True mate nomate moves by (subst minimax.simps) (simp add: color_def[symmetric])
      ultimately show ?thesis by (simp add: agrees_in_window_refl)
    next
      case False
      from Suc.prems(2) mate nomate moves False obtain "values" where
        vs: "for_values (\<lambda>move. do {
                   result \<leftarrow> executeMove board (fst move) (fst (snd move)) castlingRights
                               enPassantTarget PromoteQueen;
                   brute_minimax ev depth1 (newBoard result) (\<not> isMaximizing)
                     (newEnPassantTarget result) (newCastlingRights result) }) moves = Some values"
        and v: "v = (if isMaximizing then maximum values else minimum values)"
        by (auto simp: bind_eq_Some_conv color_def[symmetric])
      have child: "\<forall>move \<in> set moves. \<forall>result v a b. a < b \<longrightarrow>
        executeMove board (fst move) (fst (snd move)) castlingRights enPassantTarget PromoteQueen
          = Some result \<longrightarrow>
        brute_minimax ev depth1 (newBoard result) side (newEnPassantTarget result)
          (newCastlingRights result) = Some v \<longrightarrow>
        (\<exists>r. minimax ev (newBoard result) depth1 a b side (newEnPassantTarget result)
               (newCastlingRights result) = Some r \<and> agrees_in_window a b v r)" for side
        using Suc.IH by blast
      show ?thesis
      proof (cases isMaximizing)
        case True
        from vs True have vs': "for_values (\<lambda>move. do {
                   result \<leftarrow> executeMove board (fst move) (fst (snd move)) castlingRights
                               enPassantTarget PromoteQueen;
                   brute_minimax ev depth1 (newBoard result) False
                     (newEnPassantTarget result) (newCastlingRights result) }) moves = Some values"
          by simp
        from max_loop_agrees[OF child vs' Suc.prems(1), of NegInfinity] obtain r where
          r: "minimax_max_loop ev board depth1 enPassantTarget castlingRights moves NegInfinity
                alpha beta = Some r" and
          ag: "agrees_in_window alpha beta (maximum values) r"
          unfolding agrees_in_window_def by auto
        have "minimax ev board (Suc depth1) alpha beta isMaximizing enPassantTarget castlingRights
              = Some r"
          using True mate[unfolded color_def] nomate moves[unfolded color_def] False r
          by (subst minimax.simps) simp
        with ag v True show ?thesis by simp
      next
        case notmax: False
        from vs notmax have vs': "for_values (\<lambda>move. do {
                   result \<leftarrow> executeMove board (fst move) (fst (snd move)) castlingRights
                               enPassantTarget PromoteQueen;
                   brute_minimax ev depth1 (newBoard result) True
                     (newEnPassantTarget result) (newCastlingRights result) }) moves = Some values"
          by simp
        from min_loop_agrees[OF child vs' Suc.prems(1), of Infinity] obtain r where
          r: "minimax_min_loop ev board depth1 enPassantTarget castlingRights moves Infinity
                alpha beta = Some r" and
          ag: "agrees_in_window alpha beta (minimum values) r"
          unfolding agrees_in_window_def by auto
        have "minimax ev board (Suc depth1) alpha beta isMaximizing enPassantTarget castlingRights
              = Some r"
          using notmax mate[unfolded color_def] nomate moves[unfolded color_def] False r
          by (subst minimax.simps) simp
        with ag v notmax show ?thesis by simp
      qed
    qed
  qed
qed

lemma minimax_full_window:
  assumes "brute_minimax ev depth board isMaximizing enPassantTarget castlingRights = Some v"
  shows "minimax ev board depth NegInfinity Infinity isMaximizing enPassantTarget castlingRights
           = Some v"
proof -
  have "NegInfinity < Infinity" by (simp add: less_Score_def less_eq_Score_def)
  from minimax_agrees[OF this assms] agrees_full_window show ?thesis by blast
qed

lemma getAIMove_loop_brute:
  assumes "brute_getAIMove_loop ev perturb board difficulty enPassantTarget castlingRights
             moves i bestMove bestScore = Some choice"
  shows "getAIMove_loop ev perturb board difficulty enPassantTarget castlingRights
             moves i bestMove bestScore = Some choice"
  using assms
proof (induction moves arbitrary: i bestMove bestScore)
  case Nil
  then show ?case by simp
next
  case (Cons move moves)
  from Cons.prems obtain result score where
    ex: "executeMove board (fst move) (fst (snd move)) castlingRights enPassantTarget PromoteQueen
           = Some result" and
    sc: "brute_minimax ev difficulty (newBoard result) False (newEnPassantTarget result)
           (newCastlingRights result) = Some score" and
    rest: "(if perturb i score > bestScore
          then brute_getAIMove_loop ev perturb board difficulty enPassantTarget
                 castlingRights moves (i + 1) move (perturb i score)
          else brute_getAIMove_loop ev perturb board difficulty enPassantTarget
                 castlingRights moves (i + 1) bestMove bestScore) = Some choice"
    by (auto simp: bind_eq_Some_conv)
  have "(if perturb i score > bestScore
          then getAIMove_loop ev perturb board difficulty enPassantTarget
                 castlingRights moves (i + 1) move (perturb i score)
          else getAIMove_loop ev perturb board difficulty enPassantTarget
                 castlingRights moves (i + 1) bestMove bestScore) = Some choice"
    using rest Cons.IH by (auto split: if_splits)
  then show ?case
    by (simp add: ex minimax_full_window[OF sc] Let_def)
qed

lemma getAIMove_brute:
  assumes "brute_getAIMove ev perturb board difficulty enPassantTarget castlingRights = Some choice"
  shows "getAIMove ev perturb board difficulty enPassantTarget castlingRights = Some choice"
proof -
  from assms obtain moves where
    moves: "getAllMoves board Black enPassantTarget (Some castlingRights) = Some moves"
    by (auto simp: brute_getAIMove_def bind_eq_Some_conv)
  show ?thesis
  proof (cases "length moves = 0")
    case True
    with assms moves show ?thesis by (simp add: brute_getAIMove_def getAIMove_def)
  next
    case False
    with assms moves obtain m where
      "brute_getAIMove_loop ev perturb board difficulty enPassantTarget castlingRights
         moves 0 (moves ! 0) NegInfinity = Some m" and "choice = Some m"
      by (auto simp: brute_getAIMove_def)
    with getAIMove_loop_brute[OF this(1)] False moves show ?thesis
      by (simp add: getAIMove_def)
  qed
qed

lemma ep_step_rectangular:
  assumes "(if c then do { cp \<leftarrow> cell b r k; nb \<leftarrow> set_cell b r k None; Some (cp, nb) }
            else Some (cap0, b)) = Some (cap, nb)"
    and "rectangular b cols"
  shows "rectangular nb cols"
  using assms by (auto simp: bind_eq_Some_conv set_cell_rectangular split: if_splits)

lemma castle_step_rectangular:
  assumes "(if c then do { rook \<leftarrow> cell b r rf; nb \<leftarrow> set_cell b r rt rook; set_cell nb r rf None }
            else Some b) = Some b'"
    and "rectangular b cols"
  shows "rectangular b' cols"
  using assms by (auto simp: bind_eq_Some_conv split: if_splits intro: set_cell_rectangular)

lemma executeMove_rectangular:
  assumes ex: "executeMove board from to rights enPassantTarget promotionPiece = Some res"
    and rect: "rectangular board cols"
  shows "rectangular (newBoard res) cols"
proof (cases "cell board (row from) (col from)")
  case None
  with ex show ?thesis by (simp add: executeMove_def)
next
  case (Some sq)
  show ?thesis
  proof (cases sq)
    case None
    with Some ex rect show ?thesis by (auto simp: executeMove_def)
  next
    case (Some piece)
    with \<open>cell board (row from) (col from) = Some sq\<close>
    have pc: "cell board (row from) (col from) = Some (Some piece)" by simp
    from ex obtain cap0 sm cap nb1 nb2 nb3 nb4 where
      s1: "(if sm = Some EnPassant then
              do { cp \<leftarrow> cell board (if pcolor piece = White then row to + 1 else row to - 1) (col to);
                   nb \<leftarrow> set_cell board (if pcolor piece = White then row to + 1 else row to - 1) (col to) None;
                   Some (cp, nb) }
            else Some (cap0, board)) = Some (cap, nb1)" and
      s2: "(if sm = Some CastleKingside \<or> sm = Some CastleQueenside then
              do { rook \<leftarrow> cell nb1 (row to) (if sm = Some CastleKingside then 8 else 0);
                   nb \<leftarrow> set_cell nb1 (row to) (if sm = Some CastleKingside then col to - 1 else col to + 1) rook;
                   set_cell nb (row to) (if sm = Some CastleKingside then 8 else 0) None }
            else Some nb1) = Some nb2" and
      s3: "(if sm = Some Promotion
            then set_cell nb2 (row to) (col to)
                   (Some \<lparr>ptype = promoted_type promotionPiece, pcolor = pcolor piece\<rparr>)
            else set_cell nb2 (row to) (col to) (Some piece)) = Some nb3" and
      s4: "set_cell nb3 (row from) (col from) None = Some nb4" and
      nb: "newBoard res = nb4"
      unfolding executeMove_def Let_def pc Option.bind.simps option.case
      by (auto simp: bind_eq_Some_conv split del: if_split)
    have "rectangular nb1 cols" by (rule ep_step_rectangular[OF s1 rect])
    then have "rectangular nb2 cols" by (rule castle_step_rectangular[OF s2])
    then have "rectangular nb3 cols" using s3 by (auto split: if_splits intro: set_cell_rectangular)
    then show ?thesis using s4 nb by (auto intro: set_cell_rectangular)
  qed
qed

lemma for_collect_member:
  "for_collect f xs = Some ys \<Longrightarrow> y \<in> set ys \<Longrightarrow> f y = Some True"
  by (induction xs arbitrary: ys) (auto simp: bind_eq_Some_conv split: if_splits)

lemma getAllLegalMoves_member:
  assumes "getAllLegalMoves board color enPassantTarget castlingRights = Some moves"
    and "move \<in> set moves"
  shows "isValidMove board (fst move) (fst (snd move)) enPassantTarget castlingRights = Some True"
proof -
  from assms(1) obtain pieces where
    fa: "for_append (\<lambda>(piece, position). do {
                        validMoves \<leftarrow> getValidMoves board position enPassantTarget castlingRights;
                        Some (map (\<lambda>to. (position, to, piece)) validMoves) })
            pieces = Some moves"
    by (auto simp: getAllLegalMoves_def bind_eq_Some_conv)
  from for_append_member[OF fa assms(2)] obtain piece position validMoves where
    vm: "getValidMoves board position enPassantTarget castlingRights = Some validMoves" and
    mv: "move \<in> set (map (\<lambda>to. (position, to, piece)) validMoves)"
    by (auto simp: bind_eq_Some_conv)
  from mv obtain to where to: "to \<in> set validMoves" and m: "move = (position, to, piece)"
    by auto
  from vm obtain cols where
    "for_collect (\<lambda>to. isValidMove board position to enPassantTarget castlingRights)
       (scan_squares (board_rows board) cols) = Some validMoves"
    by (auto simp: getValidMoves_def bind_eq_Some_conv)
  from for_collect_member[OF this to] m show ?thesis by simp
qed

section \<open>The brute-force search returns\<close>

lemma for_values_total:
  "(\<And>x. x \<in> set xs \<Longrightarrow> f x \<noteq> None) \<Longrightarrow> for_values f xs \<noteq> None"
proof (induction xs)
  case Nil
  show ?case by simp
next
  case (Cons x xs)
  from Cons.prems[of x] obtain v where v: "f x = Some v" by auto
  from Cons.IH Cons.prems obtain vs where vs: "for_values f xs = Some vs" by auto
  show ?case by (simp add: v vs)
qed

lemma legal_child:
  assumes moves: "getAllMoves board color enPassantTarget (Some castlingRights) = Some moves"
    and mem: "move \<in> set moves"
    and rect: "rectangular board cols"
  shows "\<exists>result. executeMove board (fst move) (fst (snd move)) castlingRights enPassantTarget
                     PromoteQueen = Some result
                  \<and> rectangular (newBoard result) cols"
proof -
  from moves have "getAllLegalMoves board color enPassantTarget (Some castlingRights) = Some moves"
    by (simp add: getAllMoves_def)
  from getAllLegalMoves_member[OF this mem]
  have "isValidMove board (fst move) (fst (snd move)) enPassantTarget (Some castlingRights)
          = Some True" .
  from executeMove_legal_total[OF this, of castlingRights PromoteQueen] obtain result where
    ex: "executeMove board (fst move) (fst (snd move)) castlingRights enPassantTarget
           PromoteQueen = Some result" by blast
  from executeMove_rectangular[OF ex rect] ex show ?thesis by blast
qed

lemma brute_minimax_total:
  assumes "rectangular board cols" and cols: "9 \<le> cols"
    and ev: "\<forall>b e c. rectangular b cols \<longrightarrow> ev b e c \<noteq> None"
  shows "brute_minimax ev depth board isMaximizing enPassantTarget castlingRights \<noteq> None"
  using assms(1)
proof (induction depth arbitrary: board isMaximizing enPassantTarget castlingRights)
  case 0
  with ev show ?case by simp
next
  case (Suc depth1)
  note rect = Suc.prems
  define color where "color = (if isMaximizing then Black else White)"
  from isCheckmate_total[OF rect cols] obtain mate where
    mate: "isCheckmate board color enPassantTarget (Some castlingRights) = Some mate" by blast
  from getAllLegalMoves_total[OF rect cols] obtain moves where
    moves: "getAllMoves board color enPassantTarget (Some castlingRights) = Some moves"
    unfolding getAllMoves_def by blast
  have "for_values
          (\<lambda>move. do {
             result \<leftarrow> executeMove board (fst move) (fst (snd move)) castlingRights
                         enPassantTarget PromoteQueen;
             brute_minimax ev depth1 (newBoard result) (\<not> isMaximizing)
               (newEnPassantTarget result) (newCastlingRights result) })
          moves \<noteq> None"
  proof (rule for_values_total)
    fix move assume "move \<in> set moves"
    from legal_child[OF moves this rect] obtain result where
      ex: "executeMove board (fst move) (fst (snd move)) castlingRights enPassantTarget
             PromoteQueen = Some result" and r: "rectangular (newBoard result) cols" by blast
    from Suc.IH[OF r] ex
    show "do { result \<leftarrow> executeMove board (fst move) (fst (snd move)) castlingRights
                         enPassantTarget PromoteQueen;
               brute_minimax ev depth1 (newBoard result) (\<not> isMaximizing)
                 (newEnPassantTarget result) (newCastlingRights result) } \<noteq> None"
      by simp
  qed
  then show ?case
    using mate[unfolded color_def] moves[unfolded color_def] by (auto simp: Let_def)
qed

lemma brute_getAIMove_loop_total:
  assumes rect: "rectangular board cols" and cols: "9 \<le> cols"
    and ev: "\<forall>b e c. rectangular b cols \<longrightarrow> ev b e c \<noteq> None"
    and all: "getAllMoves board color enPassantTarget (Some castlingRights) = Some all_moves"
    and sub: "set moves \<subseteq> set all_moves"
  shows "brute_getAIMove_loop ev perturb board difficulty enPassantTarget castlingRights
           moves i bestMove bestScore \<noteq> None"
  using sub
proof (induction moves arbitrary: i bestMove bestScore)
  case Nil
  show ?case by simp
next
  case (Cons move moves)
  then have mem: "move \<in> set all_moves" and sub': "set moves \<subseteq> set all_moves" by auto
  from legal_child[OF all mem rect] obtain result where
    ex: "executeMove board (fst move) (fst (snd move)) castlingRights enPassantTarget
           PromoteQueen = Some result" and r: "rectangular (newBoard result) cols" by blast
  from brute_minimax_total[OF r cols ev] obtain score where
    sc: "brute_minimax ev difficulty (newBoard result) False (newEnPassantTarget result)
           (newCastlingRights result) = Some score" by blast
  show ?case
    using Cons.IH[OF sub'] by (simp add: ex sc)
qed

lemma brute_getAIMove_total:
  assumes rect: "rectangular board cols" and cols: "9 \<le> cols"
    and ev: "\<forall>b e c. rectangular b cols \<longrightarrow> ev b e c \<noteq> None"
  shows "brute_getAIMove ev perturb board difficulty enPassantTarget castlingRights \<noteq> None"
proof -
  from getAllLegalMoves_total[OF rect cols] obtain moves where
    moves: "getAllMoves board Black enPassantTarget (Some castlingRights) = Some moves"
    unfolding getAllMoves_def by blast
  from brute_getAIMove_loop_total[OF rect cols ev moves subset_refl]
  show ?thesis by (auto simp: brute_getAIMove_def moves)
qed

text \<open>
  C9. The search depth is a natural number, the static evaluation is any function, and
  the adjustment that \<open>getAIMove\<close> makes to the score of its \<open>i\<close>-th candidate is any fixed
  function \<open>perturb i\<close> (the identity when the perturbation is disabled). Whenever the
  brute-force minimax returns a value, \<open>minimax\<close> called with the window from
  \<open>NegInfinity\<close> to \<open>Infinity\<close> returns the same value; whenever the move selection over
  brute-force values returns a choice, \<open>getAIMove\<close> returns the same choice, which depends
  on nothing but its arguments; and on a well-formed board, with an evaluation that
  returns on well-formed boards, both brute-force functions return, so that the search
  and the selection return and agree with them.
\<close>

theorem minimax_is_brute_force:
  "(brute_minimax ev depth board isMaximizing enPassantTarget castlingRights = Some v \<longrightarrow>
      minimax ev board depth NegInfinity Infinity isMaximizing enPassantTarget castlingRights
        = Some v)
   \<and> (brute_getAIMove ev perturb board depth enPassantTarget castlingRights = Some choice \<longrightarrow>
        getAIMove ev perturb board depth enPassantTarget castlingRights = Some choice)
   \<and> (wf_board board \<and> (\<forall>b e c. wf_board b \<longrightarrow> ev b e c \<noteq> None) \<longrightarrow>
        (\<exists>score. brute_minimax ev depth board isMaximizing enPassantTarget castlingRights
                    = Some score
                \<and> minimax ev board depth NegInfinity Infinity isMaximizing enPassantTarget
                    castlingRights = Some score)
        \<and> (\<exists>selected. brute_getAIMove ev perturb board depth enPassantTarget castlingRights
                         = Some selected
                     \<and> getAIMove ev perturb board depth enPassantTarget castlingRights
                         = Some selected))"
proof (intro conjI impI)
  assume "brute_minimax ev depth board isMaximizing enPassantTarget castlingRights = Some v"
  then show "minimax ev board depth NegInfinity Infinity isMaximizing enPassantTarget
               castlingRights = Some v"
    by (rule minimax_full_window)
next
  assume "brute_getAIMove ev perturb board depth enPassantTarget castlingRights = Some choice"
  then show "getAIMove ev perturb board depth enPassantTarget castlingRights = Some choice"
    by (rule getAIMove_brute)
next
  assume h: "wf_board board \<and> (\<forall>b e c. wf_board b \<longrightarrow> ev b e c \<noteq> None)"
  then obtain cols where rect: "rectangular board cols" and cols: "9 \<le> cols"
    unfolding wf_board_def by blast
  from h cols have ev: "\<forall>b e c. rectangular b cols \<longrightarrow> ev b e c \<noteq> None"
    unfolding wf_board_def by blast
  from brute_minimax_total[OF rect cols ev] obtain x where
    x: "brute_minimax ev depth board isMaximizing enPassantTarget castlingRights = Some x"
    by blast
  from minimax_full_window[OF x] x
  show "\<exists>score. brute_minimax ev depth board isMaximizing enPassantTarget castlingRights
                    = Some score
                \<and> minimax ev board depth NegInfinity Infinity isMaximizing enPassantTarget
                    castlingRights = Some score"
    by blast
  from brute_getAIMove_total[OF rect cols ev] obtain y where
    y: "brute_getAIMove ev perturb board depth enPassantTarget castlingRights = Some y"
    by blast
  from getAIMove_brute[OF y] y
  show "\<exists>selected. brute_getAIMove ev perturb board depth enPassantTarget castlingRights
                         = Some selected
                     \<and> getAIMove ev perturb board depth enPassantTarget castlingRights
                         = Some selected"
    by blast
qed

lemma wf_board_rook_duel: "wf_board rook_duel"
proof -
  have "rectangular rook_duel 9"
    by (simp add: rectangular_def rook_duel_def rook_ending_def put_def empty_board_def)
       (auto simp: set_replicate_conv_if dest!: set_update_subset_insert[THEN subsetD])
  then show ?thesis unfolding wf_board_def by auto
qed

theorem minimax_is_brute_force_witness:
  "wf_board rook_duel
   \<and> brute_minimax piece_balance 1 rook_duel True None getInitialCastlingRights = Some (Finite 1)
   \<and> minimax piece_balance rook_duel 1 NegInfinity Infinity True None getInitialCastlingRights
       = Some (Finite 1)
   \<and> brute_getAIMove piece_balance (\<lambda>i score. score) rook_duel 0 None getInitialCastlingRights
       = Some (Some (\<lparr>row = 0, col = 8\<rparr>, \<lparr>row = 7, col = 8\<rparr>, \<lparr>ptype = Rook, pcolor = Black\<rparr>))
   \<and> getAIMove piece_balance (\<lambda>i score. score) rook_duel 0 None getInitialCastlingRights
       = Some (Some (\<lparr>row = 0, col = 8\<rparr>, \<lparr>row = 7, col = 8\<rparr>, \<lparr>ptype = Rook, pcolor = Black\<rparr>))"
proof -
  have b: "brute_minimax piece_balance 1 rook_duel True None getInitialCastlingRights
             = Some (Finite 1)"
    by code_simp
  have c: "brute_getAIMove piece_balance (\<lambda>i score. score) rook_duel 0 None
             getInitialCastlingRights
           = Some (Some (\<lparr>row = 0, col = 8\<rparr>, \<lparr>row = 7, col = 8\<rparr>,
                         \<lparr>ptype = Rook, pcolor = Black\<rparr>))"
    by code_simp
  have t: "\<forall>b e c. wf_board b \<longrightarrow> piece_balance b e c \<noteq> None"
    by (simp add: piece_balance_def)
  show ?thesis
    using minimax_is_brute_force[of piece_balance 1 rook_duel True None getInitialCastlingRights
            "Finite 1" "\<lambda>i score. score"
            "Some (\<lparr>row = 0, col = 8\<rparr>, \<lparr>row = 7, col = 8\<rparr>, \<lparr>ptype = Rook, pcolor = Black\<rparr>)"]
          minimax_is_brute_force[of piece_balance 0 rook_duel True None getInitialCastlingRights
            "Finite 1" "\<lambda>i score. score"
            "Some (\<lparr>row = 0, col = 8\<rparr>, \<lparr>row = 7, col = 8\<rparr>, \<lparr>ptype = Rook, pcolor = Black\<rparr>)"]
          b c t wf_board_rook_duel
    by simp
qed

end
